theory Spec2Isabelle
  imports
    Complex_Main
    "HOL-Library.Sublist"
    "HOL-Library.Char_ord"
    "HOL-Library.List_Lexorder"
    "HOL-Library.Multiset"
    "HOL-Library.AList"
begin

section \<open>The hidden-service scanner of \<^verbatim>\<open>tornet/modules/hidden_service_scanner.py\<close>\<close>

text \<open>
  The development embeds the class \<^verbatim>\<open>HiddenServiceScanner\<close>: the loader of the
  target file, the probe of one target, the worker loop, the progress loop of
  \<^verbatim>\<open>start\<close> and the report writer. Python methods whose names start with an
  underscore keep their names without it.
\<close>

subsection \<open>Python strings\<close>

text \<open>
  A Python \<^verbatim>\<open>str\<close> is a \<^typ>\<open>string\<close>, one \<^typ>\<open>char\<close> per code point (code
  points below 256). \<^verbatim>\<open>str.isspace\<close> holds on exactly these code points of that range:
  the controls 9 to 13 and 28 to 31, the space, NEL (133) and the no-break space (160).
\<close>

definition isspace :: "char \<Rightarrow> bool" where
  "isspace c \<longleftrightarrow>
     (let n = (of_char c :: nat) in
      (9 \<le> n \<and> n \<le> 13) \<or> (28 \<le> n \<and> n \<le> 32) \<or> n = 133 \<or> n = 160)"

text \<open>\<^verbatim>\<open>s.strip()\<close>: leading and trailing whitespace removed.\<close>

definition strip :: "string \<Rightarrow> string" where
  "strip s = rev (dropWhile isspace (rev (dropWhile isspace s)))"

text \<open>\<^verbatim>\<open>s.startswith(p)\<close> and \<^verbatim>\<open>s.endswith(p)\<close>.\<close>

definition startswith :: "string \<Rightarrow> string \<Rightarrow> bool" where
  "startswith s p \<longleftrightarrow> take (length p) s = p"

definition endswith :: "string \<Rightarrow> string \<Rightarrow> bool" where
  "endswith s p \<longleftrightarrow> length p \<le> length s \<and> drop (length s - length p) s = p"

text \<open>\<^verbatim>\<open>p in s\<close> for strings: \<open>p\<close> occurs in \<open>s\<close> as a contiguous run.\<close>

fun contains :: "string \<Rightarrow> string \<Rightarrow> bool" where
  "contains p [] \<longleftrightarrow> p = []"
| "contains p (c # cs) \<longleftrightarrow> startswith (c # cs) p \<or> contains p cs"

text \<open>The line terminator.\<close>

abbreviation nl :: char where
  "nl \<equiv> CHR 0x0A"

subsection \<open>Values and dictionaries\<close>

text \<open>
  The values the scanner stores in its result dictionaries: \<^verbatim>\<open>None\<close>, integers,
  strings and the float of \<^verbatim>\<open>time.time()\<close>. A dictionary is an association list in
  insertion order; \<^const>\<open>AList.update\<close> is the assignment \<^verbatim>\<open>d[k] = v\<close> (an existing key
  keeps its place, a new key goes last) and \<^const>\<open>map_of\<close> the lookup, \<open>None\<close> where
  Python raises \<^verbatim>\<open>KeyError\<close>.
\<close>

datatype pyval = PNone | PInt int | PStr string | PFloat real

type_synonym pydict = "(string \<times> pyval) list"

subsection \<open>The scanner object\<close>

text \<open>
  The file named by \<^verbatim>\<open>onion_list_file\<close>, as the loader meets it: \<open>NotFound\<close> when
  \<^verbatim>\<open>os.path.exists\<close> is false; otherwise \<open>File ls err\<close>, where iterating the opened
  file yields the lines \<open>ls\<close> (each with its terminator, as Python yields them) and then
  ends (\<open>err = None\<close>) or raises the exception whose text is \<open>e\<close> (\<open>err = Some e\<close>;
  \<open>ls = []\<close> when \<^verbatim>\<open>open\<close> itself raises, as on a directory or an unreadable file).
\<close>

datatype onion_file = NotFound | File "string list" "string option"

text \<open>
  The fields \<^verbatim>\<open>__init__\<close> sets. The logger, the lock and the HTTP session are not
  fields of the model: the lock is the atomicity of the steps below, the session is
  part of the network that answers a request.
\<close>

record scanner =
  onion_list_file :: onion_file
  threads :: int
  timeout :: int
  results :: "(string \<times> pydict) list"
  queue :: "string list"
  active_count :: nat
  total_count :: nat

definition init :: "onion_file \<Rightarrow> int \<Rightarrow> int \<Rightarrow> scanner" where
  "init file n t =
     \<lparr>onion_list_file = file, threads = n, timeout = t, results = [], queue = [],
      active_count = 0, total_count = 0\<rparr>"

subsection \<open>Loading the targets\<close>

text \<open>
  The loop of \<^verbatim>\<open>_load_onion_domains\<close> over the lines of the file, with the list
  \<^verbatim>\<open>domains\<close> it appends to.
\<close>

fun load_lines :: "string list \<Rightarrow> string list \<Rightarrow> string list" where
  "load_lines domains [] = domains"
| "load_lines domains (line # rest) =
     (let domain = strip line in
      if domain \<noteq> [] \<and> endswith domain ''.onion''
      then load_lines
             (domains @ [if \<not> startswith domain ''http'' then ''http://'' @ domain else domain])
             rest
      else load_lines domains rest)"

text \<open>The loop \<^verbatim>\<open>for domain in domains: self.queue.put(domain)\<close>.\<close>

fun put_all :: "string list \<Rightarrow> string list \<Rightarrow> string list" where
  "put_all q [] = q"
| "put_all q (domain # rest) = put_all (q @ [domain]) rest"

text \<open>
  \<^verbatim>\<open>_load_onion_domains\<close>: the returned flag and the scanner afterwards. A missing file
  returns \<open>False\<close> at once; an exception while opening or reading is caught by the
  handler of the whole body, which returns \<open>False\<close> too, before \<^verbatim>\<open>total_count\<close> is set
  or anything is enqueued.
\<close>

definition load_onion_domains :: "scanner \<Rightarrow> bool \<times> scanner" where
  "load_onion_domains self =
     (case onion_list_file self of
        NotFound \<Rightarrow> (False, self)
      | File ls (Some e) \<Rightarrow> (False, self)
      | File ls None \<Rightarrow>
          (let domains = load_lines [] ls in
           (True, self\<lparr>total_count := length domains,
                      queue := put_all (queue self) domains\<rparr>)))"

text \<open>
  The two tests of the loader as predicates of the stripped line, and the target a
  stripped line is turned into.
\<close>

definition accepted :: "string \<Rightarrow> bool" where
  "accepted domain \<longleftrightarrow> domain \<noteq> [] \<and> endswith domain ''.onion''"

definition with_protocol :: "string \<Rightarrow> string" where
  "with_protocol domain =
     (if \<not> startswith domain ''http'' then ''http://'' @ domain else domain)"

definition targets_of :: "string list \<Rightarrow> string list" where
  "targets_of ls = map with_protocol (filter accepted (map strip ls))"

subsection \<open>Probing one target\<close>

text \<open>
  What the HTML parser does with the body of a response, in lines 167 to 169 of the
  source (\<^verbatim>\<open>BeautifulSoup(response.text, 'html.parser')\<close>, \<^verbatim>\<open>soup.title\<close>,
  \<^verbatim>\<open>soup.find_all('a')\<close>): one of these calls raises an exception, kept as its text
  \<^verbatim>\<open>str(e)\<close> (\<open>ParserRaises\<close>; the parser rejects some markup), or they give the
  text of the first \<^verbatim>\<open>title\<close> tag (\<open>None\<close> when \<^verbatim>\<open>soup.title\<close> is \<^verbatim>\<open>None\<close>) and
  the number of \<^verbatim>\<open>a\<close> tags (\<open>Soup\<close>).
\<close>

datatype parsed = ParserRaises string | Soup "string option" nat

text \<open>
  What \<^verbatim>\<open>self.session.get(url, timeout=self.timeout)\<close> gives back, as far as the
  scanner reads it: the status code, the headers \<^verbatim>\<open>Server\<close> and
  \<^verbatim>\<open>Content-Type\<close> (\<open>None\<close> when the response has no such header), and what the
  HTML parser would do with the body.
\<close>

record response =
  status_code :: int
  header_server :: "string option"
  header_content_type :: "string option"
  soup :: parsed

text \<open>
  The request returns a response, raises a \<^verbatim>\<open>requests.exceptions.RequestException\<close>
  (a timeout, a refused or failed connection), or raises another exception; an
  exception is kept as its text, \<^verbatim>\<open>str(e)\<close>.
\<close>

datatype get_outcome =
    Response response
  | RequestException string
  | OtherException string

text \<open>The dictionary \<^verbatim>\<open>_scan_domain\<close> starts from; \<open>now\<close> is \<^verbatim>\<open>time.time()\<close>.\<close>

definition initial_result :: "real \<Rightarrow> pydict" where
  "initial_result now =
     [(''status'', PStr ''inactive''),
      (''response_code'', PNone),
      (''title'', PNone),
      (''server'', PNone),
      (''content_type'', PNone),
      (''links'', PInt 0),
      (''scan_time'', PFloat now)]"

text \<open>\<^verbatim>\<open>response.headers.get(name, 'Unknown')\<close>.\<close>

definition header_or_unknown :: "string option \<Rightarrow> string" where
  "header_or_unknown h = (case h of None \<Rightarrow> ''Unknown'' | Some v \<Rightarrow> v)"

text \<open>
  \<^verbatim>\<open>_scan_domain\<close>, given the outcome \<open>got\<close> of the request for \<open>url\<close>: \<open>Inr\<close> the
  returned dictionary, \<open>Inl\<close> the text of an exception that leaves the function. The
  only handler of the \<^verbatim>\<open>try\<close> is for \<^verbatim>\<open>RequestException\<close>: it returns the initial
  dictionary. Any other exception leaves the function, whether the request raises it
  or the parser, which runs only when the content type contains \<^verbatim>\<open>text/html\<close>.
\<close>

definition scan_domain :: "string \<Rightarrow> get_outcome \<Rightarrow> real \<Rightarrow> string + pydict" where
  "scan_domain url got now =
     (let result = initial_result now in
      case got of
        RequestException e \<Rightarrow> Inr result
      | OtherException e \<Rightarrow> Inl e
      | Response r \<Rightarrow>
          (let result = AList.update ''response_code'' (PInt (status_code r)) result;
               result = AList.update ''status'' (PStr ''active'') result;
               result = AList.update ''server''
                          (PStr (header_or_unknown (header_server r))) result;
               content_type = header_or_unknown (header_content_type r);
               result = AList.update ''content_type'' (PStr content_type) result
           in if contains ''text/html'' content_type
              then
                (case soup r of
                   ParserRaises e \<Rightarrow> Inl e
                 | Soup title links \<Rightarrow>
                     (let result = AList.update ''title''
                                     (PStr (case title of
                                              Some t \<Rightarrow> strip t
                                            | None \<Rightarrow> ''No title'')) result;
                          result = AList.update ''links'' (PInt (int links)) result
                      in Inr result))
              else Inr result))"

text \<open>The parser runs on the response and raises the exception with text \<open>e\<close>.\<close>

definition parser_raises :: "response \<Rightarrow> string \<Rightarrow> bool" where
  "parser_raises r e \<longleftrightarrow>
     contains ''text/html'' (header_or_unknown (header_content_type r))
     \<and> soup r = ParserRaises e"

subsection \<open>The body of the worker loop\<close>

text \<open>The dictionary the worker stores when the scan raised.\<close>

definition error_result :: "string \<Rightarrow> pydict" where
  "error_result e = [(''status'', PStr ''error''), (''error'', PStr e)]"

text \<open>
  One pass of the loop of \<^verbatim>\<open>_worker\<close> after \<open>domain\<close> was taken from the queue: the
  scan, and under the lock the store of its result and the count of active targets;
  any exception of that block is caught and an error dictionary stored instead. The
  lookup \<^verbatim>\<open>result['status']\<close> is inside the block, so a missing key would be caught
  like the rest, with the text \<^verbatim>\<open>'status'\<close> of the \<^verbatim>\<open>KeyError\<close>.
\<close>

definition worker_body :: "string \<Rightarrow> get_outcome \<Rightarrow> real \<Rightarrow> scanner \<Rightarrow> scanner" where
  "worker_body domain got now self =
     (case scan_domain domain got now of
        Inl e \<Rightarrow>
          self\<lparr>results := AList.update domain (error_result e) (results self)\<rparr>
      | Inr result \<Rightarrow>
          (let self = self\<lparr>results := AList.update domain result (results self)\<rparr> in
           case map_of result ''status'' of
             None \<Rightarrow>
               self\<lparr>results :=
                      AList.update domain
                        (error_result ([CHR 0x27] @ ''status'' @ [CHR 0x27])) (results self)\<rparr>
           | Some st \<Rightarrow>
               if st = PStr ''active''
               then self\<lparr>active_count := active_count self + 1\<rparr>
               else self))"

subsection \<open>Formatting values\<close>

text \<open>
  \<^verbatim>\<open>str\<close> of a Python integer: its decimal digits, with a minus sign when negative.
\<close>

definition digit :: "nat \<Rightarrow> char" where
  "digit n = ''0123456789'' ! n"

function str_nat :: "nat \<Rightarrow> string" where
  "str_nat n = (if n < 10 then [digit n] else str_nat (n div 10) @ [digit (n mod 10)])"
  by pat_completeness auto
termination
  by (relation "measure id") auto

declare str_nat.simps [simp del]

definition str_int :: "int \<Rightarrow> string" where
  "str_int i = (if i < 0 then CHR ''-'' # str_nat (nat (- i)) else str_nat (nat i))"

text \<open>
  What an f-string puts in place of \<^verbatim>\<open>{v}\<close>. The scanner never formats a float, and
  the decimal form of one is not part of the model: the function says nothing about
  \<open>PFloat\<close>.
\<close>

fun py_str :: "pyval \<Rightarrow> string" where
  "py_str PNone = ''None''"
| "py_str (PInt i) = str_int i"
| "py_str (PStr s) = s"

text \<open>\<^verbatim>\<open>{result[key]}\<close> inside an f-string; \<open>None\<close> is the \<^verbatim>\<open>KeyError\<close>.\<close>

definition fmt :: "pydict \<Rightarrow> string \<Rightarrow> string option" where
  "fmt result key = map_option py_str (map_of result key)"

subsection \<open>The report\<close>

text \<open>
  The file is the text written so far; \<^verbatim>\<open>f.write(s)\<close> appends. The seven writes for
  one active target, in the order of the source.
\<close>

definition active_entry :: "string \<Rightarrow> pydict \<Rightarrow> string option" where
  "active_entry domain result =
     (case fmt result ''response_code'' of None \<Rightarrow> None | Some code \<Rightarrow>
      case fmt result ''title'' of None \<Rightarrow> None | Some title \<Rightarrow>
      case fmt result ''server'' of None \<Rightarrow> None | Some server \<Rightarrow>
      case fmt result ''content_type'' of None \<Rightarrow> None | Some ctype \<Rightarrow>
      case fmt result ''links'' of None \<Rightarrow> None | Some links \<Rightarrow>
        Some (''URL: '' @ domain @ [nl]
            @ ''Response Code: '' @ code @ [nl]
            @ ''Title: '' @ title @ [nl]
            @ ''Server: '' @ server @ [nl]
            @ ''Content Type: '' @ ctype @ [nl]
            @ ''Links: '' @ links @ [nl]
            @ [nl]))"

text \<open>
  The first loop over \<^verbatim>\<open>sorted(self.results.items())\<close>: \<open>f\<close> is the file so far,
  \<open>None\<close> a \<^verbatim>\<open>KeyError\<close> that leaves the function.
\<close>

fun write_active :: "(string \<times> pydict) list \<Rightarrow> string \<Rightarrow> string option" where
  "write_active [] f = Some f"
| "write_active ((domain, result) # rest) f =
     (case map_of result ''status'' of
        None \<Rightarrow> None
      | Some st \<Rightarrow>
          if st = PStr ''active''
          then (case active_entry domain result of
                  None \<Rightarrow> None
                | Some entry \<Rightarrow> write_active rest (f @ entry))
          else write_active rest f)"

text \<open>The second loop: one line for each inactive target.\<close>

definition inactive_entry :: "string \<Rightarrow> string" where
  "inactive_entry domain = ''URL: '' @ domain @ [nl]"

fun write_inactive :: "(string \<times> pydict) list \<Rightarrow> string \<Rightarrow> string option" where
  "write_inactive [] f = Some f"
| "write_inactive ((domain, result) # rest) f =
     (case map_of result ''status'' of
        None \<Rightarrow> None
      | Some st \<Rightarrow>
          if st = PStr ''inactive''
          then write_inactive rest (f @ inactive_entry domain)
          else write_inactive rest f)"

text \<open>
  Modelled from the spec: the end of the third loop of \<^verbatim>\<open>_save_results\<close>. The source
  file stops inside the test \<^verbatim>\<open>if result['status'] ==\<close> of that loop; the spec
  gives the intended completion as listing the error-status targets with their
  captured error message. The comparison with \<^verbatim>\<open>'error'\<close> and the two lines written
  for a target are that completion.
\<close>

definition error_entry :: "string \<Rightarrow> pydict \<Rightarrow> string option" where
  "error_entry domain result =
     (case fmt result ''error'' of
        None \<Rightarrow> None
      | Some message \<Rightarrow> Some (''URL: '' @ domain @ [nl] @ ''Error: '' @ message @ [nl]))"

text \<open>
  Modelled from the spec: the third loop of \<^verbatim>\<open>_save_results\<close> with the completion
  above; the iteration over \<^verbatim>\<open>sorted(self.results.items())\<close> and the lookup of
  \<^verbatim>\<open>result['status']\<close> are the source's.
\<close>

fun write_error :: "(string \<times> pydict) list \<Rightarrow> string \<Rightarrow> string option" where
  "write_error [] f = Some f"
| "write_error ((domain, result) # rest) f =
     (case map_of result ''status'' of
        None \<Rightarrow> None
      | Some st \<Rightarrow>
          if st = PStr ''error''
          then (case error_entry domain result of
                  None \<Rightarrow> None
                | Some entry \<Rightarrow> write_error rest (f @ entry))
          else write_error rest f)"

text \<open>
  \<^verbatim>\<open>sorted(self.results.items())\<close>: the keys of a dictionary are distinct, so the
  order of the pairs is the order of their keys, the order of Python strings by code
  point.
\<close>

definition sorted_items :: "(string \<times> pydict) list \<Rightarrow> (string \<times> pydict) list" where
  "sorted_items items = sort_key fst items"

text \<open>The four lines at the head of the report; \<open>stamp\<close> is the text of \<^verbatim>\<open>time.strftime\<close>.\<close>

definition report_head :: "string \<Rightarrow> scanner \<Rightarrow> string" where
  "report_head stamp self =
       ''# Onion Service Scan Results'' @ [nl]
     @ ''# Total scanned: '' @ str_nat (total_count self) @ [nl]
     @ ''# Active: '' @ str_nat (active_count self) @ [nl]
     @ ''# Scan time: '' @ stamp @ [nl, nl]"

text \<open>
  \<^verbatim>\<open>_save_results\<close>: the name of the file and its text, or \<open>None\<close> when a
  \<^verbatim>\<open>KeyError\<close> leaves the function; \<open>epoch\<close> is \<^verbatim>\<open>int(time.time())\<close>.
\<close>

definition save_results :: "int \<Rightarrow> string \<Rightarrow> scanner \<Rightarrow> (string \<times> string) option" where
  "save_results epoch stamp self =
     (let output_file = ''onion_scan_results_'' @ str_int epoch @ ''.txt'';
          f = report_head stamp self;
          f = f @ ''## Active Sites'' @ [nl, nl]
      in case write_active (sorted_items (results self)) f of
           None \<Rightarrow> None
         | Some f \<Rightarrow>
             (let f = f @ ''## Inactive Sites'' @ [nl, nl]
              in case write_inactive (sorted_items (results self)) f of
                   None \<Rightarrow> None
                 | Some f \<Rightarrow>
                     (let f = f @ ''## Error Sites'' @ [nl, nl]
                      in case write_error (sorted_items (results self)) f of
                           None \<Rightarrow> None
                         | Some f \<Rightarrow> Some (output_file, f))))"

subsection \<open>The threads of \<^verbatim>\<open>start\<close>\<close>

text \<open>
  A worker thread is at the top of its loop, about to call
  \<^verbatim>\<open>self.queue.get(block=False)\<close> (\<open>Polling\<close>), holds a target it took from the queue
  and has not stored a result for yet (\<open>Scanning\<close>), or has left the loop on
  \<^verbatim>\<open>queue.Empty\<close> and ended (\<open>Exited\<close>, the only state in which \<^verbatim>\<open>is_alive()\<close> is
  false).
\<close>

datatype worker = Polling | Scanning string | Exited

text \<open>
  The main thread inside \<^verbatim>\<open>start\<close>: before the call of the loader; in the loop that
  starts the workers; at the test of the \<^verbatim>\<open>while\<close> with the value of
  \<^verbatim>\<open>processed\<close>; before the locked read of \<^verbatim>\<open>len(self.results)\<close>; after the sleep,
  at the test that breaks the loop; before \<^verbatim>\<open>_save_results\<close>; returned with a value;
  left by an exception.
\<close>

datatype main_pc =
    Loading
  | Spawning
  | LoopTest nat
  | ReadLen nat
  | BreakTest nat
  | Saving
  | Returned bool
  | Raised

text \<open>
  A run of \<^verbatim>\<open>start\<close>: the scanner object (\<^verbatim>\<open>self\<close>), the place of the main
  thread, the worker threads in the order they were started (the list \<^verbatim>\<open>workers\<close>
  of \<^verbatim>\<open>start\<close>), and the report file once it is written.
\<close>

record pool =
  obj :: scanner
  main :: main_pc
  workers :: "worker list"
  report :: "(string \<times> string) option"

definition boot :: "onion_file \<Rightarrow> int \<Rightarrow> int \<Rightarrow> pool" where
  "boot file n t = \<lparr>obj = init file n t, main = Loading, workers = [], report = None\<rparr>"

text \<open>\<^verbatim>\<open>all(not worker.is_alive() for worker in workers)\<close>.\<close>

definition all_exited :: "worker list \<Rightarrow> bool" where
  "all_exited ws \<longleftrightarrow> list_all (\<lambda>w. w = Exited) ws"

text \<open>
  One step of the main thread. The queue and the lock make each access to the shared
  state atomic; between two steps of one thread the others run as the schedule has it.
  The test that breaks the loop reads the queue and the threads one after the other;
  it is one step here, which loses nothing: once the queue is empty it stays empty,
  and a thread that has ended stays ended. \<open>epoch\<close> and \<open>stamp\<close> are the clock
  readings of the report. \<^verbatim>\<open>task_done()\<close> only counts down the queue's unfinished
  tasks, which nothing waits on, and is left out, as are the progress bar and the
  log lines, which only display.
\<close>

definition main_step :: "int \<Rightarrow> string \<Rightarrow> pool \<Rightarrow> pool" where
  "main_step epoch stamp p =
     (case main p of
        Loading \<Rightarrow>
          (case load_onion_domains (obj p) of
             (ok, s) \<Rightarrow> p\<lparr>obj := s, main := (if ok then Spawning else Returned False)\<rparr>)
      | Spawning \<Rightarrow>
          if int (length (workers p)) < threads (obj p)
          then p\<lparr>workers := workers p @ [Polling]\<rparr>
          else p\<lparr>main := LoopTest 0\<rparr>
      | LoopTest processed \<Rightarrow>
          if processed < total_count (obj p)
          then p\<lparr>main := ReadLen processed\<rparr>
          else p\<lparr>main := Saving\<rparr>
      | ReadLen processed \<Rightarrow>
          (let new_processed = length (results (obj p)) in
           if new_processed > processed
           then p\<lparr>main := BreakTest new_processed\<rparr>
           else p\<lparr>main := BreakTest processed\<rparr>)
      | BreakTest processed \<Rightarrow>
          if queue (obj p) = [] \<and> all_exited (workers p)
          then p\<lparr>main := Saving\<rparr>
          else p\<lparr>main := LoopTest processed\<rparr>
      | Saving \<Rightarrow>
          (case save_results epoch stamp (obj p) of
             None \<Rightarrow> p\<lparr>main := Raised\<rparr>
           | Some file \<Rightarrow> p\<lparr>report := Some file, main := Returned True\<rparr>)
      | Returned b \<Rightarrow> p
      | Raised \<Rightarrow> p)"

text \<open>
  One step of worker \<open>i\<close>: the non-blocking \<^verbatim>\<open>get\<close>, or the scan of the held target
  with the store of its result, where \<open>got\<close> is the outcome of the request and \<open>now\<close>
  the clock. A thread that does not exist or has ended takes no step.
\<close>

definition worker_step :: "nat \<Rightarrow> get_outcome \<Rightarrow> real \<Rightarrow> pool \<Rightarrow> pool" where
  "worker_step i got now p =
     (if i < length (workers p)
      then (case workers p ! i of
              Polling \<Rightarrow>
                (case queue (obj p) of
                   [] \<Rightarrow> p\<lparr>workers := (workers p)[i := Exited]\<rparr>
                 | domain # rest \<Rightarrow>
                     p\<lparr>obj := (obj p)\<lparr>queue := rest\<rparr>,
                       workers := (workers p)[i := Scanning domain]\<rparr>)
            | Scanning domain \<Rightarrow>
                p\<lparr>obj := worker_body domain got now (obj p),
                  workers := (workers p)[i := Polling]\<rparr>
            | Exited \<Rightarrow> p)
      else p)"

text \<open>A schedule is a list of events; each lets one thread take its next step.\<close>

datatype event = MainStep int string | WorkerStep nat get_outcome real

fun step :: "event \<Rightarrow> pool \<Rightarrow> pool" where
  "step (MainStep epoch stamp) p = main_step epoch stamp p"
| "step (WorkerStep i got now) p = worker_step i got now p"

fun run :: "event list \<Rightarrow> pool \<Rightarrow> pool" where
  "run [] p = p"
| "run (e # es) p = run es (step e p)"

text \<open>
  All worker threads were started; the pool is complete: they were all started, all
  have ended and the queue is empty; \<^verbatim>\<open>start\<close> has left its progress loop.
\<close>

definition spawned :: "pool \<Rightarrow> bool" where
  "spawned p \<longleftrightarrow>
     (case main p of
        Loading \<Rightarrow> False
      | Spawning \<Rightarrow> False
      | Returned b \<Rightarrow> b
      | Raised \<Rightarrow> True
      | _ \<Rightarrow> True)"

definition pool_complete :: "pool \<Rightarrow> bool" where
  "pool_complete p \<longleftrightarrow> spawned p \<and> queue (obj p) = [] \<and> all_exited (workers p)"

definition at_report :: "pool \<Rightarrow> bool" where
  "at_report p \<longleftrightarrow> main p = Saving \<or> main p = Returned True"

text \<open>The targets the workers hold.\<close>

fun held :: "worker \<Rightarrow> string list" where
  "held (Scanning domain) = [domain]"
| "held Polling = []"
| "held Exited = []"

definition in_flight :: "worker list \<Rightarrow> string list" where
  "in_flight ws = concat (map held ws)"

subsection \<open>The groups of the report\<close>

text \<open>The targets of one final status, in the order of the sorted items.\<close>

definition has_status :: "string \<Rightarrow> string \<times> pydict \<Rightarrow> bool" where
  "has_status st item \<longleftrightarrow> map_of (snd item) ''status'' = Some (PStr st)"

definition status_group :: "string \<Rightarrow> (string \<times> pydict) list \<Rightarrow> (string \<times> pydict) list" where
  "status_group st items = filter (has_status st) (sorted_items items)"

text \<open>
  A dictionary the report writer reads without a \<^verbatim>\<open>KeyError\<close>: it has a status, the
  five keys of an active entry when the status is \<^verbatim>\<open>active\<close>, and the key
  \<^verbatim>\<open>error\<close> when the status is \<^verbatim>\<open>error\<close>.
\<close>

definition printable :: "pydict \<Rightarrow> bool" where
  "printable result \<longleftrightarrow>
     (case map_of result ''status'' of
        None \<Rightarrow> False
      | Some st \<Rightarrow>
          if st = PStr ''active''
          then list_all (\<lambda>key. map_of result key \<noteq> None)
                 [''response_code'', ''title'', ''server'', ''content_type'', ''links'']
          else if st = PStr ''error'' then map_of result ''error'' \<noteq> None
          else True)"

subsection \<open>Invariants of a run\<close>

text \<open>
  Every target of the file is in exactly one place: still in the queue, held by a
  worker, or a key of the results.
\<close>

definition inv_targets :: "string list \<Rightarrow> pool \<Rightarrow> bool" where
  "inv_targets ls p \<longleftrightarrow>
     onion_list_file (obj p) = File ls None \<and>
     (if main p = Loading
      then queue (obj p) = [] \<and> results (obj p) = [] \<and> workers p = []
      else total_count (obj p) = length (targets_of ls) \<and>
           mset (queue (obj p)) + mset (in_flight (workers p))
             + mset (map fst (results (obj p))) = mset (targets_of ls))"

text \<open>Every stored result can be printed.\<close>

definition inv_printable :: "pool \<Rightarrow> bool" where
  "inv_printable p \<longleftrightarrow> list_all (\<lambda>item. printable (snd item)) (results (obj p))"

text \<open>
  The condition under which \<^verbatim>\<open>start\<close> leaves its progress loop, and what the main
  thread knows at each place of that loop: \<^verbatim>\<open>processed\<close> never exceeds the number of
  results.
\<close>

definition loop_exit :: "pool \<Rightarrow> bool" where
  "loop_exit p \<longleftrightarrow>
     total_count (obj p) \<le> length (results (obj p))
     \<or> (queue (obj p) = [] \<and> all_exited (workers p))"

definition inv_loop :: "pool \<Rightarrow> bool" where
  "inv_loop p \<longleftrightarrow>
     (case main p of
        LoopTest processed \<Rightarrow> processed \<le> length (results (obj p))
      | ReadLen processed \<Rightarrow> processed \<le> length (results (obj p))
      | BreakTest processed \<Rightarrow> processed \<le> length (results (obj p))
      | Saving \<Rightarrow> loop_exit p
      | Returned b \<Rightarrow> b \<longrightarrow> loop_exit p
      | _ \<Rightarrow> True)"

text \<open>The number of threads started: all of them once the loop that starts them is left.\<close>

definition inv_workers :: "pool \<Rightarrow> bool" where
  "inv_workers p \<longleftrightarrow>
     (case main p of
        Loading \<Rightarrow> workers p = []
      | Spawning \<Rightarrow> int (length (workers p)) \<le> max 0 (threads (obj p))
      | Returned b \<Rightarrow> if b then int (length (workers p)) = max 0 (threads (obj p))
                      else workers p = []
      | _ \<Rightarrow> int (length (workers p)) = max 0 (threads (obj p)))"

text \<open>The loader fails on the file: it is missing, or opening or reading it raises.\<close>

definition load_fails :: "onion_file \<Rightarrow> bool" where
  "load_fails file \<longleftrightarrow> (case file of NotFound \<Rightarrow> True | File ls err \<Rightarrow> err \<noteq> None)"

text \<open>A schedule in which the main thread takes a step; the number of its steps.\<close>

fun is_main :: "event \<Rightarrow> bool" where
  "is_main (MainStep epoch stamp) = True"
| "is_main (WorkerStep i got now) = False"

definition main_steps :: "event list \<Rightarrow> nat" where
  "main_steps evs = length (filter is_main evs)"

text \<open>
  How many steps of the main thread are left, from a place of the progress loop, to the
  write of the report when the loop is left at the next test that breaks it.
\<close>

fun to_report :: "main_pc \<Rightarrow> nat" where
  "to_report (LoopTest processed) = 3"
| "to_report (ReadLen processed) = 2"
| "to_report (BreakTest processed) = 1"
| "to_report Loading = 0"
| "to_report Spawning = 0"
| "to_report Saving = 0"
| "to_report (Returned b) = 0"
| "to_report Raised = 0"

subsection \<open>Facts about the loader\<close>

lemma load_lines_acc:
  "load_lines domains ls = domains @ targets_of ls"
  by (induction ls arbitrary: domains)
     (simp_all add: targets_of_def with_protocol_def accepted_def Let_def)

lemma put_all_append: "put_all q ds = q @ ds"
  by (induction ds arbitrary: q) simp_all

lemma load_onion_domains_File:
  "load_onion_domains (self\<lparr>onion_list_file := File ls None\<rparr>) =
     (True, self\<lparr>onion_list_file := File ls None,
                total_count := length (targets_of ls),
                queue := queue self @ targets_of ls\<rparr>)"
  by (simp add: load_onion_domains_def load_lines_acc put_all_append Let_def)

lemma queue_load_init:
  "queue (snd (load_onion_domains (init (File ls None) n t))) = targets_of ls"
  by (simp add: load_onion_domains_def load_lines_acc put_all_append init_def Let_def)

lemma strip_abc: "strip (''abc.onion'' @ [nl]) = ''abc.onion''"
  by (simp add: strip_def isspace_def)

lemma strip_blank: "strip [nl] = []"
  by (simp add: strip_def isspace_def)

lemma strip_def_onion: "strip ''def.onion'' = ''def.onion''"
  by (simp add: strip_def isspace_def)

lemma targets_of_scenario:
  "targets_of [''abc.onion'' @ [nl], [nl], ''def.onion''] =
     [''http://abc.onion'', ''http://def.onion'']"
  unfolding targets_of_def list.map strip_abc strip_blank strip_def_onion
  by (simp add: accepted_def endswith_def with_protocol_def startswith_def)

text \<open>
  Claim C2. For every file that is read to its end, the loader enqueues, in the order
  of the file, exactly the lines that are non-empty after stripping and end in
  \<^verbatim>\<open>.onion\<close> (each turned into its target), and counts them; a line is enqueued if
  and only if it passes that test. On the file of the three lines \<^verbatim>\<open>abc.onion\<close>, a
  blank line and \<^verbatim>\<open>def.onion\<close> the count is 2 and the queue holds 2 entries.
\<close>

theorem C2_load_enqueues_accepted_lines:
  "load_onion_domains (init (File ls None) n t) =
     (True, (init (File ls None) n t)
              \<lparr>total_count := length (filter (\<lambda>l. accepted (strip l)) ls),
               queue := map (\<lambda>l. with_protocol (strip l))
                          (filter (\<lambda>l. strip l \<noteq> [] \<and> endswith (strip l) ''.onion'') ls)\<rparr>)
   \<and> total_count (snd (load_onion_domains
        (init (File [''abc.onion'' @ [nl], [nl], ''def.onion''] None) n t))) = 2
   \<and> queue (snd (load_onion_domains
        (init (File [''abc.onion'' @ [nl], [nl], ''def.onion''] None) n t))) =
       [''http://abc.onion'', ''http://def.onion'']"
proof -
  have general: "load_onion_domains (init (File ls None) n t) =
      (True, (init (File ls None) n t)
               \<lparr>total_count := length (targets_of ls), queue := targets_of ls\<rparr>)" for ls
    by (simp add: load_onion_domains_def load_lines_acc put_all_append init_def Let_def)
  have shape: "targets_of ls =
      map (\<lambda>l. with_protocol (strip l))
        (filter (\<lambda>l. strip l \<noteq> [] \<and> endswith (strip l) ''.onion'') ls)"
    by (simp add: targets_of_def filter_map comp_def accepted_def)
  have count: "length (targets_of ls) = length (filter (\<lambda>l. accepted (strip l)) ls)"
    by (simp add: targets_of_def filter_map comp_def)
  have scenario: "load_onion_domains
      (init (File [''abc.onion'' @ [nl], [nl], ''def.onion''] None) n t) =
      (True, (init (File [''abc.onion'' @ [nl], [nl], ''def.onion''] None) n t)
               \<lparr>total_count := 2, queue := [''http://abc.onion'', ''http://def.onion'']\<rparr>)"
    unfolding general targets_of_scenario by simp
  have first: "load_onion_domains (init (File ls None) n t) =
     (True, (init (File ls None) n t)
              \<lparr>total_count := length (filter (\<lambda>l. accepted (strip l)) ls),
               queue := map (\<lambda>l. with_protocol (strip l))
                          (filter (\<lambda>l. strip l \<noteq> [] \<and> endswith (strip l) ''.onion'') ls)\<rparr>)"
    by (simp add: general shape accepted_def)
  show ?thesis
    unfolding scenario by (rule conjI [OF first]) simp
qed

text \<open>
  Claim C3, at a line that has no URL scheme and starts with the letters
  \<^verbatim>\<open>http\<close>: the loader tests \<^verbatim>\<open>startswith('http')\<close>, so the line
  \<^verbatim>\<open>httpabc.onion\<close> is enqueued as it is, with no scheme, and a line with another
  scheme, \<^verbatim>\<open>ftp://abc.onion\<close>, gets \<^verbatim>\<open>http://\<close> in front of it.
\<close>

theorem C3_protocol_test_is_prefix_http:
  "queue (snd (load_onion_domains (init (File [''httpabc.onion'' @ [nl]] None) n t))) =
     [''httpabc.onion'']
   \<and> queue (snd (load_onion_domains (init (File [''ftp://abc.onion'' @ [nl]] None) n t))) =
     [''http://ftp://abc.onion'']"
proof -
  have s1: "strip (''httpabc.onion'' @ [nl]) = ''httpabc.onion''"
    by (simp add: strip_def isspace_def)
  have s2: "strip (''ftp://abc.onion'' @ [nl]) = ''ftp://abc.onion''"
    by (simp add: strip_def isspace_def)
  have t1: "targets_of [''httpabc.onion'' @ [nl]] = [''httpabc.onion'']"
    unfolding targets_of_def list.map s1
    by (simp add: accepted_def endswith_def with_protocol_def startswith_def)
  have t2: "targets_of [''ftp://abc.onion'' @ [nl]] = [''http://ftp://abc.onion'']"
    unfolding targets_of_def list.map s2
    by (simp add: accepted_def endswith_def with_protocol_def startswith_def)
  show ?thesis
    unfolding queue_load_init t1 t2 by simp
qed

subsection \<open>Facts about the probe\<close>

lemma scan_domain_Response:
  "scan_domain url (Response r) now =
     (let entries = (\<lambda>title links.
            [(''status'', PStr ''active''),
             (''response_code'', PInt (status_code r)),
             (''title'', title),
             (''server'', PStr (header_or_unknown (header_server r))),
             (''content_type'', PStr (header_or_unknown (header_content_type r))),
             (''links'', links),
             (''scan_time'', PFloat now)])
      in if contains ''text/html'' (header_or_unknown (header_content_type r))
         then (case soup r of
                 ParserRaises e \<Rightarrow> Inl e
               | Soup title links \<Rightarrow>
                   Inr (entries
                          (PStr (case title of Some t \<Rightarrow> strip t | None \<Rightarrow> ''No title''))
                          (PInt (int links))))
         else Inr (entries PNone (PInt 0)))"
  by (simp add: scan_domain_def initial_result_def Let_def split: parsed.splits)

lemma scan_domain_RequestException:
  "scan_domain url (RequestException e) now = Inr (initial_result now)"
  by (simp add: scan_domain_def)

lemma scan_domain_OtherException:
  "scan_domain url (OtherException e) now = Inl e"
  by (simp add: scan_domain_def)

lemma scan_domain_parser_raises:
  "parser_raises r e \<Longrightarrow> scan_domain url (Response r) now = Inl e"
  by (simp add: scan_domain_Response parser_raises_def)

lemma scan_domain_Inl:
  "scan_domain url got now = Inl e \<longleftrightarrow>
     got = OtherException e \<or> (\<exists>r. got = Response r \<and> parser_raises r e)"
  by (cases got)
     (auto simp add: scan_domain_Response scan_domain_RequestException
        scan_domain_OtherException parser_raises_def Let_def split: parsed.splits)

lemma scan_domain_status:
  "scan_domain url got now = Inr result \<Longrightarrow>
     map_of result ''status'' =
       Some (PStr (case got of Response r \<Rightarrow> ''active'' | _ \<Rightarrow> ''inactive''))"
  by (cases got)
     (auto simp add: scan_domain_Response scan_domain_RequestException
        scan_domain_OtherException initial_result_def Let_def
        split: if_splits parsed.splits)

lemma map_of_update_same: "map_of (AList.update k v al) k = Some v"
  by (simp add: update_conv')

lemma worker_body_Inl:
  "scan_domain domain got now = Inl e \<Longrightarrow>
     worker_body domain got now self =
       self\<lparr>results := AList.update domain (error_result e) (results self)\<rparr>"
  by (simp add: worker_body_def)

lemma worker_body_Inr:
  assumes "scan_domain domain got now = Inr result"
  shows "worker_body domain got now self =
       self\<lparr>results := AList.update domain result (results self),
            active_count := (case got of Response r \<Rightarrow> active_count self + 1
                              | _ \<Rightarrow> active_count self)\<rparr>"
  using assms scan_domain_status [OF assms]
  by (cases got) (simp_all add: worker_body_def)

lemma worker_step_Scanning:
  "i < length (workers p) \<Longrightarrow> workers p ! i = Scanning domain \<Longrightarrow>
     worker_step i got now p =
       p\<lparr>obj := worker_body domain got now (obj p), workers := (workers p)[i := Polling]\<rparr>"
  by (simp add: worker_step_def)

lemma worker_step_Polling_Cons:
  "i < length (workers p) \<Longrightarrow> workers p ! i = Polling \<Longrightarrow> queue (obj p) = d # rest \<Longrightarrow>
     worker_step i got now p =
       p\<lparr>obj := (obj p)\<lparr>queue := rest\<rparr>, workers := (workers p)[i := Scanning d]\<rparr>"
  by (simp add: worker_step_def)

lemma worker_step_Polling_Nil:
  "i < length (workers p) \<Longrightarrow> workers p ! i = Polling \<Longrightarrow> queue (obj p) = [] \<Longrightarrow>
     worker_step i got now p = p\<lparr>workers := (workers p)[i := Exited]\<rparr>"
  by (simp add: worker_step_def)




text \<open>
  Claim C5. When the request raises a \<^verbatim>\<open>RequestException\<close>, \<^verbatim>\<open>_scan_domain\<close>
  returns (it does not raise) the result with status \<^verbatim>\<open>inactive\<close> and response code
  \<^verbatim>\<open>None\<close>, and the worker that holds the target stores that result under the target
  and goes back to the top of its loop.
\<close>

theorem C5_request_error_recorded_inactive:
  assumes "i < length (workers p)" and "workers p ! i = Scanning url"
  shows "\<exists>result. scan_domain url (RequestException e) now = Inr result
           \<and> map_of result ''status'' = Some (PStr ''inactive'')
           \<and> map_of result ''response_code'' = Some PNone
           \<and> map_of (results (obj (worker_step i (RequestException e) now p))) url = Some result
           \<and> workers (worker_step i (RequestException e) now p) = (workers p)[i := Polling]"
  using assms
  by (simp add: worker_step_Scanning scan_domain_RequestException
      worker_body_Inr [OF scan_domain_RequestException] map_of_update_same)
     (simp add: initial_result_def)

theorem C5_request_error_witness:
  "0 < length (workers \<lparr>obj = init (File [] None) 1 30, main = LoopTest 0,
                          workers = [Scanning ''http://abc.onion''], report = None\<rparr>)
   \<and> workers \<lparr>obj = init (File [] None) 1 30, main = LoopTest 0,
                 workers = [Scanning ''http://abc.onion''], report = None\<rparr> ! 0 =
       Scanning ''http://abc.onion''
   \<and> (\<exists>result. scan_domain ''http://abc.onion'' (RequestException ''timed out'') 0 = Inr result
         \<and> map_of result ''status'' = Some (PStr ''inactive'')
         \<and> map_of result ''response_code'' = Some PNone
         \<and> map_of (results (obj (worker_step 0 (RequestException ''timed out'') 0
               \<lparr>obj = init (File [] None) 1 30, main = LoopTest 0,
                 workers = [Scanning ''http://abc.onion''], report = None\<rparr>)))
             ''http://abc.onion'' = Some result
         \<and> workers (worker_step 0 (RequestException ''timed out'') 0
               \<lparr>obj = init (File [] None) 1 30, main = LoopTest 0,
                 workers = [Scanning ''http://abc.onion''], report = None\<rparr>) =
             (workers \<lparr>obj = init (File [] None) 1 30, main = LoopTest 0,
                 workers = [Scanning ''http://abc.onion''], report = None\<rparr>)[0 := Polling])"
proof -
  let ?p = "\<lparr>obj = init (File [] None) 1 30, main = LoopTest 0,
             workers = [Scanning ''http://abc.onion''], report = None\<rparr>"
  have h1: "0 < length (workers ?p)" by simp
  have h2: "workers ?p ! 0 = Scanning ''http://abc.onion''" by simp
  show ?thesis
    by (intro conjI h1 h2 C5_request_error_recorded_inactive [OF h1 h2])
qed

text \<open>
  Claim C6. When the scan of the held target raises, the worker stores under the
  target the dictionary with status \<^verbatim>\<open>error\<close> and the text of the exception, and is
  back at the top of its loop: every other worker, the queue and the main thread are
  as before, and the worker itself takes the next target of the queue at its next step.
\<close>

theorem C6_unexpected_exception_recorded_as_error:
  assumes "i < length (workers p)" and "workers p ! i = Scanning domain"
    and "scan_domain domain got now = Inl e"
  shows "map_of (results (obj (worker_step i got now p))) domain =
           Some [(''status'', PStr ''error''), (''error'', PStr e)]
       \<and> workers (worker_step i got now p) = (workers p)[i := Polling]
       \<and> queue (obj (worker_step i got now p)) = queue (obj p)
       \<and> main (worker_step i got now p) = main p
       \<and> (\<forall>d rest got' now'. queue (obj p) = d # rest \<longrightarrow>
             workers (worker_step i got' now' (worker_step i got now p)) =
               (workers p)[i := Scanning d]
           \<and> queue (obj (worker_step i got' now' (worker_step i got now p))) = rest)"
proof -
  let ?p' = "worker_step i got now p"
  have p': "?p' = p\<lparr>obj := (obj p)\<lparr>results :=
                AList.update domain (error_result e) (results (obj p))\<rparr>,
              workers := (workers p)[i := Polling]\<rparr>"
    using assms by (simp add: worker_step_Scanning worker_body_Inl)
  have next_target: "workers (worker_step i got' now' ?p') = (workers p)[i := Scanning d]
      \<and> queue (obj (worker_step i got' now' ?p')) = rest"
    if "queue (obj p) = d # rest" for d rest got' now'
  proof -
    have "worker_step i got' now' ?p' =
        ?p'\<lparr>obj := (obj ?p')\<lparr>queue := rest\<rparr>, workers := (workers ?p')[i := Scanning d]\<rparr>"
      using assms(1) that by (intro worker_step_Polling_Cons) (simp_all add: p')
    then show ?thesis by (simp add: p')
  qed
  show ?thesis
    using next_target by (simp add: p' map_of_update_same error_result_def)
qed

theorem C6_unexpected_exception_witness:
  "map_of (results (obj (worker_step 0 (OtherException ''boom'') 0
       \<lparr>obj = (init (File [] None) 2 30)\<lparr>queue := [''http://def.onion'']\<rparr>,
        main = LoopTest 0,
        workers = [Scanning ''http://abc.onion'', Polling], report = None\<rparr>)))
     ''http://abc.onion'' = Some [(''status'', PStr ''error''), (''error'', PStr ''boom'')]
   \<and> workers (worker_step 0 (OtherException ''boom'') 0
       \<lparr>obj = (init (File [] None) 2 30)\<lparr>queue := [''http://def.onion'']\<rparr>,
        main = LoopTest 0,
        workers = [Scanning ''http://abc.onion'', Polling], report = None\<rparr>) =
       [Polling, Polling]
   \<and> workers (worker_step 0 (RequestException ''timed out'') 1
        (worker_step 0 (OtherException ''boom'') 0
         \<lparr>obj = (init (File [] None) 2 30)\<lparr>queue := [''http://def.onion'']\<rparr>,
          main = LoopTest 0,
          workers = [Scanning ''http://abc.onion'', Polling], report = None\<rparr>)) =
       [Scanning ''http://def.onion'', Polling]"
proof -
  let ?p = "\<lparr>obj = (init (File [] None) 2 30)\<lparr>queue := [''http://def.onion'']\<rparr>,
        main = LoopTest 0,
        workers = [Scanning ''http://abc.onion'', Polling], report = None\<rparr>"
  have h1: "0 < length (workers ?p)" by simp
  have h2: "workers ?p ! 0 = Scanning ''http://abc.onion''" by simp
  have h3: "scan_domain ''http://abc.onion'' (OtherException ''boom'') 0 = Inl ''boom''"
    by (simp add: scan_domain_OtherException)
  have q: "queue (obj ?p) = [''http://def.onion'']" by (simp add: init_def)
  from C6_unexpected_exception_recorded_as_error [OF h1 h2 h3]
  show ?thesis using q by simp
qed

text \<open>
  Claim C10, as amended. Whatever the status code, a response gives status
  \<^verbatim>\<open>active\<close> with that code recorded, unless its body is parsed (the content type
  contains \<^verbatim>\<open>text/html\<close>) and the parser raises: then the exception leaves
  \<^verbatim>\<open>_scan_domain\<close>. A returned result has status \<^verbatim>\<open>inactive\<close> exactly when the
  request raised a \<^verbatim>\<open>RequestException\<close>, so never because of a status code.
\<close>

theorem C10_any_response_is_active:
  "((\<forall>e. \<not> parser_raises r e) \<longrightarrow>
      (\<exists>result. scan_domain url (Response r) now = Inr result
         \<and> map_of result ''status'' = Some (PStr ''active'')
         \<and> map_of result ''response_code'' = Some (PInt (status_code r))))
   \<and> (\<forall>e. parser_raises r e \<longrightarrow> scan_domain url (Response r) now = Inl e)
   \<and> (\<forall>got result. scan_domain url got now = Inr result \<longrightarrow>
         (map_of result ''status'' = Some (PStr ''inactive'') \<longleftrightarrow>
          (\<exists>e. got = RequestException e)))"
proof (intro conjI allI impI)
  assume "\<forall>e. \<not> parser_raises r e"
  then show "\<exists>result. scan_domain url (Response r) now = Inr result
       \<and> map_of result ''status'' = Some (PStr ''active'')
       \<and> map_of result ''response_code'' = Some (PInt (status_code r))"
    by (cases "soup r") (auto simp add: scan_domain_Response parser_raises_def Let_def)
next
  fix e
  assume "parser_raises r e"
  then show "scan_domain url (Response r) now = Inl e"
    by (rule scan_domain_parser_raises)
next
  fix got result
  assume "scan_domain url got now = Inr result"
  from scan_domain_status [OF this]
  show "map_of result ''status'' = Some (PStr ''inactive'') \<longleftrightarrow> (\<exists>e. got = RequestException e)"
    using \<open>scan_domain url got now = Inr result\<close>
    by (cases got) (simp_all add: scan_domain_OtherException)
qed

theorem C10_any_response_witness:
  "(\<exists>result. scan_domain ''http://abc.onion''
       (Response \<lparr>status_code = 404, header_server = None, header_content_type = None,
          soup = Soup None 0\<rparr>) 0 = Inr result
       \<and> map_of result ''status'' = Some (PStr ''active'')
       \<and> map_of result ''response_code'' = Some (PInt 404))
   \<and> parser_raises \<lparr>status_code = 500, header_server = None,
          header_content_type = Some ''text/html'',
          soup = ParserRaises ''markup rejected''\<rparr> ''markup rejected''
   \<and> scan_domain ''http://abc.onion''
       (Response \<lparr>status_code = 500, header_server = None,
          header_content_type = Some ''text/html'',
          soup = ParserRaises ''markup rejected''\<rparr>) 0 = Inl ''markup rejected''
   \<and> scan_domain ''http://abc.onion'' (RequestException ''timed out'') 0 =
       Inr (initial_result 0)
   \<and> map_of (initial_result 0) ''status'' = Some (PStr ''inactive'')"
proof -
  let ?r = "\<lparr>status_code = 404, header_server = None, header_content_type = None,
          soup = Soup None 0\<rparr>"
  let ?r' = "\<lparr>status_code = 500, header_server = None,
          header_content_type = Some ''text/html'',
          soup = ParserRaises ''markup rejected''\<rparr>"
  have quiet: "\<forall>e. \<not> parser_raises ?r e"
    by (simp add: parser_raises_def)
  have loud: "parser_raises ?r' ''markup rejected''"
    by (simp add: parser_raises_def header_or_unknown_def startswith_def)
  have ret: "scan_domain ''http://abc.onion'' (RequestException ''timed out'') 0 =
      Inr (initial_result 0)"
    by (simp add: scan_domain_RequestException)
  from C10_any_response_is_active [of ?r "''http://abc.onion''" 0] quiet
  have a: "\<exists>result. scan_domain ''http://abc.onion'' (Response ?r) 0 = Inr result
       \<and> map_of result ''status'' = Some (PStr ''active'')
       \<and> map_of result ''response_code'' = Some (PInt (status_code ?r))"
    and b: "map_of (initial_result 0) ''status'' = Some (PStr ''inactive'')"
    using ret by blast+
  from C10_any_response_is_active [of ?r' "''http://abc.onion''" 0] loud
  have c: "scan_domain ''http://abc.onion'' (Response ?r') 0 = Inl ''markup rejected''"
    by blast
  from a b c loud ret show ?thesis by simp
qed

text \<open>
  The claim as stated fails at a response whose HTML body the parser rejects: the
  request returned a response (here with code 500), yet no result with status
  \<^verbatim>\<open>active\<close> is produced; the exception leaves \<^verbatim>\<open>_scan_domain\<close> and the worker
  stores status \<^verbatim>\<open>error\<close> for the target.
\<close>

theorem C10_parser_raises_counterexample:
  "scan_domain ''http://abc.onion''
       (Response \<lparr>status_code = 500, header_server = None,
          header_content_type = Some ''text/html'',
          soup = ParserRaises ''markup rejected''\<rparr>) 0 = Inl ''markup rejected''
   \<and> map_of (results (obj (worker_step 0
         (Response \<lparr>status_code = 500, header_server = None,
          header_content_type = Some ''text/html'',
          soup = ParserRaises ''markup rejected''\<rparr>) 0
         \<lparr>obj = init (File [] None) 1 30, main = LoopTest 0,
                 workers = [Scanning ''http://abc.onion''], report = None\<rparr>)))
       ''http://abc.onion'' =
       Some [(''status'', PStr ''error''), (''error'', PStr ''markup rejected'')]"
proof -
  let ?r = "\<lparr>status_code = 500, header_server = None,
          header_content_type = Some ''text/html'',
          soup = ParserRaises ''markup rejected''\<rparr>"
  have raises: "scan_domain ''http://abc.onion'' (Response ?r) 0 = Inl ''markup rejected''"
    by (simp add: scan_domain_Response header_or_unknown_def startswith_def)
  let ?p = "\<lparr>obj = init (File [] None) 1 30, main = LoopTest 0,
                 workers = [Scanning ''http://abc.onion''], report = None\<rparr>"
  have "worker_step 0 (Response ?r) 0 ?p =
      ?p\<lparr>obj := worker_body ''http://abc.onion'' (Response ?r) 0 (obj ?p),
         workers := (workers ?p)[0 := Polling]\<rparr>"
    by (rule worker_step_Scanning) simp_all
  then have "map_of (results (obj (worker_step 0 (Response ?r) 0 ?p))) ''http://abc.onion'' =
      Some [(''status'', PStr ''error''), (''error'', PStr ''markup rejected'')]"
    by (simp add: worker_body_Inl [OF raises] error_result_def map_of_update_same)
  with raises show ?thesis by (rule conjI)
qed

subsection \<open>The steps of a worker\<close>

lemma printable_scan_result:
  "scan_domain url got now = Inr result \<Longrightarrow> printable result"
  by (cases got)
     (auto simp add: scan_domain_Response scan_domain_RequestException
        scan_domain_OtherException initial_result_def printable_def Let_def
        split: if_splits parsed.splits)

lemma printable_error_result: "printable (error_result e)"
  by (simp add: printable_def error_result_def)

lemma worker_body_shape:
  "\<exists>result count. printable result \<and>
     worker_body domain got now self =
       self\<lparr>results := AList.update domain result (results self), active_count := count\<rparr>"
proof (cases "scan_domain domain got now")
  case (Inl e)
  have "worker_body domain got now self =
      self\<lparr>results := AList.update domain (error_result e) (results self),
           active_count := active_count self\<rparr>"
    by (simp add: worker_body_Inl [OF Inl])
  with printable_error_result show ?thesis by blast
next
  case (Inr result)
  from worker_body_Inr [OF Inr] printable_scan_result [OF Inr] show ?thesis by blast
qed

lemma worker_step_cases [case_names idle exit take store]:
  obtains
    (idle) "worker_step i got now p = p"
  | (exit) "i < length (workers p)" and "workers p ! i = Polling" and "queue (obj p) = []"
      and "worker_step i got now p = p\<lparr>workers := (workers p)[i := Exited]\<rparr>"
  | (take) d rest where "i < length (workers p)" and "workers p ! i = Polling"
      and "queue (obj p) = d # rest"
      and "worker_step i got now p =
             p\<lparr>obj := (obj p)\<lparr>queue := rest\<rparr>, workers := (workers p)[i := Scanning d]\<rparr>"
  | (store) d result count where "i < length (workers p)" and "workers p ! i = Scanning d"
      and "printable result"
      and "worker_step i got now p =
             p\<lparr>obj := (obj p)\<lparr>results := AList.update d result (results (obj p)),
                              active_count := count\<rparr>,
               workers := (workers p)[i := Polling]\<rparr>"
proof (cases "i < length (workers p)")
  case False
  then have "worker_step i got now p = p" by (simp add: worker_step_def)
  then show ?thesis by (rule idle)
next
  case len: True
  show ?thesis
  proof (cases "workers p ! i")
    case Polling
    show ?thesis
    proof (cases "queue (obj p)")
      case Nil
      from exit [OF len Polling Nil worker_step_Polling_Nil [OF len Polling Nil]]
      show ?thesis .
    next
      case (Cons d rest)
      from take [OF len Polling Cons worker_step_Polling_Cons [OF len Polling Cons]]
      show ?thesis .
    qed
  next
    case (Scanning d)
    from worker_body_shape [of d got now "obj p"]
    obtain result count where "printable result"
      and "worker_body d got now (obj p) =
        (obj p)\<lparr>results := AList.update d result (results (obj p)), active_count := count\<rparr>"
      by blast
    with worker_step_Scanning [OF len Scanning, of got now] store [OF len Scanning]
    show ?thesis by simp
  next
    case Exited
    with len have "worker_step i got now p = p" by (simp add: worker_step_def)
    then show ?thesis by (rule idle)
  qed
qed

lemma mset_in_flight_update:
  "i < length ws \<Longrightarrow>
     mset (in_flight (ws[i := w])) + mset (held (ws ! i)) = mset (in_flight ws) + mset (held w)"
proof (induction ws arbitrary: i)
  case Nil
  then show ?case by simp
next
  case (Cons a ws)
  show ?case
  proof (cases i)
    case 0
    then show ?thesis by (simp add: in_flight_def)
  next
    case (Suc j)
    with Cons.prems have "j < length ws" by simp
    from Cons.IH [OF this] Suc show ?thesis
      by (simp add: in_flight_def add.assoc add.left_commute)
  qed
qed

lemma in_flight_append_Polling: "in_flight (ws @ [Polling]) = in_flight ws"
  by (simp add: in_flight_def)

lemma all_exited_nth: "all_exited ws \<Longrightarrow> i < length ws \<Longrightarrow> ws ! i = Exited"
  by (simp add: all_exited_def list_all_length)

lemma worker_step_all_exited:
  "all_exited (workers p) \<Longrightarrow> worker_step i got now p = p"
  by (cases "i < length (workers p)") (simp_all add: worker_step_def all_exited_nth)

lemma length_update_ge: "length al \<le> length (AList.update k v al)"
proof -
  have "length (map fst al) \<le> length (map fst (AList.update k v al))"
    unfolding update_keys by simp
  then show ?thesis by simp
qed

lemma list_all_update:
  "list_all (\<lambda>item. P (snd item)) al \<Longrightarrow> P v \<Longrightarrow>
     list_all (\<lambda>item. P (snd item)) (AList.update k v al)"
  by (induction al) auto


subsection \<open>The invariants hold along every run\<close>

lemma run_append: "run (es @ es') p = run es' (run es p)"
  by (induction es arbitrary: p) simp_all

lemma invariant_run:
  assumes "\<And>e q. P q \<Longrightarrow> P (step e q)" and "P p"
  shows "P (run evs p)"
  using assms(2) by (induction evs arbitrary: p) (simp_all add: assms(1))

lemma main_step_file: "onion_list_file (obj (main_step epoch stamp p)) = onion_list_file (obj p)"
  by (cases "main p"; cases "onion_list_file (obj p)")
     (auto simp add: main_step_def load_onion_domains_def Let_def
        split: option.splits)

lemma worker_step_file: "onion_list_file (obj (worker_step i got now p)) = onion_list_file (obj p)"
  by (cases i got now p rule: worker_step_cases) simp_all

lemma worker_step_main: "main (worker_step i got now p) = main p"
  by (cases i got now p rule: worker_step_cases) simp_all

lemma worker_step_counts:
  "total_count (obj (worker_step i got now p)) = total_count (obj p)
   \<and> threads (obj (worker_step i got now p)) = threads (obj p)
   \<and> length (workers (worker_step i got now p)) = length (workers p)
   \<and> report (worker_step i got now p) = report p"
  by (cases i got now p rule: worker_step_cases) simp_all

lemma worker_step_results_grow:
  "length (results (obj p)) \<le> length (results (obj (worker_step i got now p)))"
  by (cases i got now p rule: worker_step_cases) (simp_all add: length_update_ge)

text \<open>The targets.\<close>

lemma main_step_obj: "main p \<noteq> Loading \<Longrightarrow> obj (main_step epoch stamp p) = obj p"
  by (cases "main p") (simp_all add: main_step_def Let_def split: option.splits)

lemma main_step_in_flight:
  "in_flight (workers (main_step epoch stamp p)) = in_flight (workers p)"
  by (cases "main p")
     (simp_all add: main_step_def Let_def in_flight_append_Polling
        split: option.splits prod.splits)

lemma main_step_started:
  "main p \<noteq> Loading \<Longrightarrow> main (main_step epoch stamp p) \<noteq> Loading"
  by (cases "main p") (simp_all add: main_step_def Let_def split: option.splits)

lemma inv_targets_main_step:
  assumes "inv_targets ls p"
  shows "inv_targets ls (main_step epoch stamp p)"
proof (cases "main p = Loading")
  case True
  with assms have src: "onion_list_file (obj p) = File ls None"
    and empty: "queue (obj p) = []" "results (obj p) = []" "workers p = []"
    by (simp_all add: inv_targets_def)
  have "load_onion_domains (obj p) =
      (True, (obj p)\<lparr>total_count := length (targets_of ls), queue := targets_of ls\<rparr>)"
    using src empty
    by (simp add: load_onion_domains_def load_lines_acc put_all_append Let_def)
  with True src empty show ?thesis
    by (simp add: main_step_def inv_targets_def in_flight_def)
next
  case False
  with assms show ?thesis
    by (simp add: inv_targets_def main_step_obj main_step_in_flight main_step_started)
qed

lemma inv_targets_worker_step:
  assumes inv: "inv_targets ls p" and dist: "distinct (targets_of ls)"
  shows "inv_targets ls (worker_step i got now p)"
proof (cases i got now p rule: worker_step_cases)
  case idle
  with inv show ?thesis by simp
next
  case exit
  from exit(1) inv have started: "main p \<noteq> Loading"
    by (auto simp add: inv_targets_def)
  from mset_in_flight_update [OF exit(1), of Exited] exit(2)
  have "mset (in_flight ((workers p)[i := Exited])) = mset (in_flight (workers p))"
    by simp
  with inv started exit(4) show ?thesis by (simp add: inv_targets_def)
next
  case (take d rest)
  from take(1) inv have started: "main p \<noteq> Loading"
    by (auto simp add: inv_targets_def)
  from mset_in_flight_update [OF take(1), of "Scanning d"] take(2)
  have "mset (in_flight ((workers p)[i := Scanning d])) = mset (in_flight (workers p)) + {#d#}"
    by simp
  with inv started take(3,4) show ?thesis by (simp add: inv_targets_def)
next
  case (store d result cnt)
  from store(1) inv have started: "main p \<noteq> Loading"
    by (auto simp add: inv_targets_def)
  let ?Q = "mset (queue (obj p))" and ?F = "mset (in_flight (workers p))"
    and ?K = "mset (map fst (results (obj p)))"
  let ?F' = "mset (in_flight ((workers p)[i := Polling]))"
  from inv started have total: "?Q + ?F + ?K = mset (targets_of ls)"
    by (simp add: inv_targets_def)
  from mset_in_flight_update [OF store(1), of Polling] store(2)
  have F: "?F = ?F' + {#d#}" by simp
  have "count (mset (targets_of ls)) d \<le> 1"
    using dist by (simp add: distinct_count_atmost_1)
  with total [symmetric] F have "count ?K d = 0" by simp
  then have fresh: "d \<notin> set (map fst (results (obj p)))"
    by (simp add: count_eq_zero_iff)
  have "mset (map fst (AList.update d result (results (obj p)))) = ?K + {#d#}"
    unfolding update_keys using fresh by simp
  with total F have "?Q + ?F' + mset (map fst (AList.update d result (results (obj p)))) =
      mset (targets_of ls)"
    by (simp add: add.assoc add.left_commute)
  with inv started store(4) show ?thesis by (simp add: inv_targets_def)
qed

lemma inv_targets_boot: "inv_targets ls (boot (File ls None) n t)"
  by (simp add: inv_targets_def boot_def init_def)

lemma inv_targets_run:
  assumes "distinct (targets_of ls)"
  shows "inv_targets ls (run evs (boot (File ls None) n t))"
proof (rule invariant_run [where P = "inv_targets ls"])
  fix e q
  assume "inv_targets ls q"
  then show "inv_targets ls (step e q)"
    by (cases e) (simp_all add: inv_targets_main_step inv_targets_worker_step [OF _ assms])
qed (rule inv_targets_boot)

subsection \<open>Facts about the report\<close>

lemma printable_status:
  "printable result \<Longrightarrow> \<exists>st. map_of result ''status'' = Some st"
  by (cases "map_of result ''status''") (simp_all add: printable_def)

lemma active_entry_printable:
  assumes "printable result" and "map_of result ''status'' = Some (PStr ''active'')"
  shows "\<exists>code title server ctype links.
           map_of result ''response_code'' = Some code
         \<and> map_of result ''title'' = Some title
         \<and> map_of result ''server'' = Some server
         \<and> map_of result ''content_type'' = Some ctype
         \<and> map_of result ''links'' = Some links
         \<and> active_entry domain result =
             Some (''URL: '' @ domain @ [nl]
                 @ ''Response Code: '' @ py_str code @ [nl]
                 @ ''Title: '' @ py_str title @ [nl]
                 @ ''Server: '' @ py_str server @ [nl]
                 @ ''Content Type: '' @ py_str ctype @ [nl]
                 @ ''Links: '' @ py_str links @ [nl]
                 @ [nl])"
proof -
  from assms obtain code title server ctype links where
    "map_of result ''response_code'' = Some code" "map_of result ''title'' = Some title"
    "map_of result ''server'' = Some server" "map_of result ''content_type'' = Some ctype"
    "map_of result ''links'' = Some links"
    by (auto simp add: printable_def)
  then show ?thesis by (simp add: active_entry_def fmt_def)
qed

lemma error_entry_printable:
  assumes "printable result" and "map_of result ''status'' = Some (PStr ''error'')"
  shows "\<exists>message. map_of result ''error'' = Some message
         \<and> error_entry domain result =
             Some (''URL: '' @ domain @ [nl] @ ''Error: '' @ py_str message @ [nl])"
proof -
  from assms obtain message where "map_of result ''error'' = Some message"
    by (auto simp add: printable_def)
  then show ?thesis by (simp add: error_entry_def fmt_def)
qed

lemma write_active_printable:
  "list_all (\<lambda>item. printable (snd item)) items \<Longrightarrow>
     \<exists>es. map Some es =
            map (\<lambda>item. active_entry (fst item) (snd item)) (filter (has_status ''active'') items)
        \<and> write_active items f = Some (f @ concat es)"
proof (induction items arbitrary: f)
  case Nil
  show ?case by simp
next
  case (Cons item items)
  obtain d r where item: "item = (d, r)" by (cases item)
  from Cons.prems item have pr: "printable r"
    and rest: "list_all (\<lambda>item. printable (snd item)) items" by simp_all
  from printable_status [OF pr] obtain st where st: "map_of r ''status'' = Some st" ..
  show ?case
  proof (cases "st = PStr ''active''")
    case True
    with active_entry_printable [OF pr, of d] st obtain entry
      where entry: "active_entry d r = Some entry" by auto
    from Cons.IH [OF rest, of "f @ entry"] obtain es
      where "map Some es = map (\<lambda>item. active_entry (fst item) (snd item))
               (filter (has_status ''active'') items)"
        and "write_active items (f @ entry) = Some ((f @ entry) @ concat es)" by blast
    with item st True entry
    have "map Some (entry # es) = map (\<lambda>item. active_entry (fst item) (snd item))
               (filter (has_status ''active'') (item # items))
        \<and> write_active (item # items) f = Some (f @ concat (entry # es))"
      by (simp add: has_status_def)
    then show ?thesis by blast
  next
    case False
    from Cons.IH [OF rest, of f] obtain es
      where "map Some es = map (\<lambda>item. active_entry (fst item) (snd item))
               (filter (has_status ''active'') items)"
        and "write_active items f = Some (f @ concat es)" by blast
    with item st False
    have "map Some es = map (\<lambda>item. active_entry (fst item) (snd item))
               (filter (has_status ''active'') (item # items))
        \<and> write_active (item # items) f = Some (f @ concat es)"
      by (simp add: has_status_def)
    then show ?thesis by blast
  qed
qed

lemma write_error_printable:
  "list_all (\<lambda>item. printable (snd item)) items \<Longrightarrow>
     \<exists>es. map Some es =
            map (\<lambda>item. error_entry (fst item) (snd item)) (filter (has_status ''error'') items)
        \<and> write_error items f = Some (f @ concat es)"
proof (induction items arbitrary: f)
  case Nil
  show ?case by simp
next
  case (Cons item items)
  obtain d r where item: "item = (d, r)" by (cases item)
  from Cons.prems item have pr: "printable r"
    and rest: "list_all (\<lambda>item. printable (snd item)) items" by simp_all
  from printable_status [OF pr] obtain st where st: "map_of r ''status'' = Some st" ..
  show ?case
  proof (cases "st = PStr ''error''")
    case True
    with error_entry_printable [OF pr, of d] st obtain entry
      where entry: "error_entry d r = Some entry" by auto
    from Cons.IH [OF rest, of "f @ entry"] obtain es
      where "map Some es = map (\<lambda>item. error_entry (fst item) (snd item))
               (filter (has_status ''error'') items)"
        and "write_error items (f @ entry) = Some ((f @ entry) @ concat es)" by blast
    with item st True entry
    have "map Some (entry # es) = map (\<lambda>item. error_entry (fst item) (snd item))
               (filter (has_status ''error'') (item # items))
        \<and> write_error (item # items) f = Some (f @ concat (entry # es))"
      by (simp add: has_status_def)
    then show ?thesis by blast
  next
    case False
    from Cons.IH [OF rest, of f] obtain es
      where "map Some es = map (\<lambda>item. error_entry (fst item) (snd item))
               (filter (has_status ''error'') items)"
        and "write_error items f = Some (f @ concat es)" by blast
    with item st False
    have "map Some es = map (\<lambda>item. error_entry (fst item) (snd item))
               (filter (has_status ''error'') (item # items))
        \<and> write_error (item # items) f = Some (f @ concat es)"
      by (simp add: has_status_def)
    then show ?thesis by blast
  qed
qed

lemma write_inactive_printable:
  "list_all (\<lambda>item. printable (snd item)) items \<Longrightarrow>
     write_inactive items f =
       Some (f @ concat (map (\<lambda>item. inactive_entry (fst item))
                          (filter (has_status ''inactive'') items)))"
proof (induction items arbitrary: f)
  case Nil
  show ?case by simp
next
  case (Cons item items)
  obtain d r where item: "item = (d, r)" by (cases item)
  from Cons.prems item have pr: "printable r"
    and rest: "list_all (\<lambda>item. printable (snd item)) items" by simp_all
  from printable_status [OF pr] obtain st where st: "map_of r ''status'' = Some st" ..
  from Cons.IH [OF rest] item st show ?case
    by (simp add: has_status_def)
qed

lemma printable_sorted_items:
  "list_all (\<lambda>item. printable (snd item)) items \<Longrightarrow>
     list_all (\<lambda>item. printable (snd item)) (sorted_items items)"
  by (simp add: sorted_items_def list_all_iff)

lemma status_group_sorted: "sorted (map fst (status_group st items))"
  by (simp add: status_group_def sorted_items_def sorted_filter)

lemma status_group_set:
  "set (status_group st items) = {item \<in> set items. has_status st item}"
  by (auto simp add: status_group_def sorted_items_def)

lemma status_group_distinct:
  assumes "distinct (map fst items)"
  shows "distinct (map fst (status_group st items))"
proof -
  have "mset (map fst (sort_key fst items)) = mset (map fst items)" by simp
  with assms have "distinct (map fst (sort_key fst items))"
    by (metis mset_eq_imp_distinct_iff)
  then show ?thesis
    by (simp add: status_group_def sorted_items_def distinct_map_filter)
qed

lemma save_results_printable:
  assumes "list_all (\<lambda>item. printable (snd item)) (results self)"
  shows "\<exists>as es.
      save_results epoch stamp self =
        Some (''onion_scan_results_'' @ str_int epoch @ ''.txt'',
              report_head stamp self
            @ ''## Active Sites'' @ [nl, nl] @ concat as
            @ ''## Inactive Sites'' @ [nl, nl]
            @ concat (map (\<lambda>item. inactive_entry (fst item))
                        (status_group ''inactive'' (results self)))
            @ ''## Error Sites'' @ [nl, nl] @ concat es)
    \<and> map Some as = map (\<lambda>item. active_entry (fst item) (snd item))
                       (status_group ''active'' (results self))
    \<and> map Some es = map (\<lambda>item. error_entry (fst item) (snd item))
                       (status_group ''error'' (results self))"
proof -
  let ?items = "sorted_items (results self)"
  let ?f1 = "report_head stamp self @ ''## Active Sites'' @ [nl, nl]"
  note pr = printable_sorted_items [OF assms]
  from write_active_printable [OF pr, of ?f1] obtain as
    where as: "map Some as = map (\<lambda>item. active_entry (fst item) (snd item))
                 (filter (has_status ''active'') ?items)"
      and w1: "write_active ?items ?f1 = Some (?f1 @ concat as)" by blast
  let ?f2 = "(?f1 @ concat as) @ ''## Inactive Sites'' @ [nl, nl]"
  note w2 = write_inactive_printable [OF pr, of ?f2]
  let ?f3 = "(?f2 @ concat (map (\<lambda>item. inactive_entry (fst item))
                (filter (has_status ''inactive'') ?items))) @ ''## Error Sites'' @ [nl, nl]"
  from write_error_printable [OF pr, of ?f3] obtain es
    where es: "map Some es = map (\<lambda>item. error_entry (fst item) (snd item))
                 (filter (has_status ''error'') ?items)"
      and w3: "write_error ?items ?f3 = Some (?f3 @ concat es)" by blast
  have "save_results epoch stamp self =
      Some (''onion_scan_results_'' @ str_int epoch @ ''.txt'', ?f3 @ concat es)"
    unfolding save_results_def Let_def w1 option.case w2 w3 ..
  with as es show ?thesis
    unfolding status_group_def by (intro exI [of _ as] exI [of _ es]) simp
qed

text \<open>The stored results can always be printed.\<close>

lemma load_onion_domains_keeps:
  "load_onion_domains s = (ok, s') \<Longrightarrow> results s' = results s \<and> threads s' = threads s"
  by (cases "onion_list_file s")
     (auto simp add: load_onion_domains_def Let_def split: option.splits)

lemma main_step_results: "results (obj (main_step epoch stamp p)) = results (obj p)"
proof (cases "main p = Loading")
  case True
  obtain ok s' where "load_onion_domains (obj p) = (ok, s')"
    by (cases "load_onion_domains (obj p)")
  with True load_onion_domains_keeps [OF this] show ?thesis
    by (simp add: main_step_def)
next
  case False
  then show ?thesis by (simp add: main_step_obj)
qed

lemma main_step_threads: "threads (obj (main_step epoch stamp p)) = threads (obj p)"
proof (cases "main p = Loading")
  case True
  obtain ok s' where "load_onion_domains (obj p) = (ok, s')"
    by (cases "load_onion_domains (obj p)")
  with True load_onion_domains_keeps [OF this] show ?thesis
    by (simp add: main_step_def)
next
  case False
  then show ?thesis by (simp add: main_step_obj)
qed

lemma inv_printable_step: "inv_printable p \<Longrightarrow> inv_printable (step e p)"
proof (cases e)
  case (MainStep epoch stamp)
  assume "inv_printable p"
  with MainStep show ?thesis by (simp add: inv_printable_def main_step_results)
next
  case (WorkerStep i got now)
  assume "inv_printable p"
  then show ?thesis
    unfolding WorkerStep step.simps
    by (cases i got now p rule: worker_step_cases)
       (simp_all add: inv_printable_def list_all_update)
qed

lemma inv_printable_run: "inv_printable (run evs (boot src n t))"
proof (rule invariant_run [where P = inv_printable])
  show "inv_printable (boot src n t)"
    by (simp add: inv_printable_def boot_def init_def)
qed (rule inv_printable_step)

text \<open>\<^verbatim>\<open>start\<close> is never left by an exception.\<close>

lemma not_Raised_step:
  assumes "inv_printable p \<and> main p \<noteq> Raised"
  shows "inv_printable (step e p) \<and> main (step e p) \<noteq> Raised"
proof (cases e)
  case (MainStep epoch stamp)
  from assms have pr: "list_all (\<lambda>item. printable (snd item)) (results (obj p))"
    by (simp add: inv_printable_def)
  from save_results_printable [OF pr, of epoch stamp]
  obtain out where "save_results epoch stamp (obj p) = Some out" by blast
  with assms have "main (main_step epoch stamp p) \<noteq> Raised"
    by (cases "main p") (simp_all add: main_step_def Let_def split: prod.splits)
  with assms MainStep inv_printable_step [of p e] show ?thesis by simp
next
  case (WorkerStep i got now)
  with assms inv_printable_step [of p e] show ?thesis by (simp add: worker_step_main)
qed

lemma not_Raised_run: "main (run evs (boot src n t)) \<noteq> Raised"
proof -
  have "inv_printable (run evs (boot src n t)) \<and> main (run evs (boot src n t)) \<noteq> Raised"
  proof (rule invariant_run [where P = "\<lambda>q. inv_printable q \<and> main q \<noteq> Raised"])
    show "inv_printable (boot src n t) \<and> main (boot src n t) \<noteq> Raised"
      by (simp add: inv_printable_def boot_def init_def)
  qed (rule not_Raised_step)
  then show ?thesis ..
qed

text \<open>The progress loop.\<close>

lemma loop_exit_worker_step: "loop_exit p \<Longrightarrow> loop_exit (worker_step i got now p)"
proof -
  assume "loop_exit p"
  then consider "total_count (obj p) \<le> length (results (obj p))"
    | "queue (obj p) = []" "all_exited (workers p)"
    by (auto simp add: loop_exit_def)
  then show ?thesis
  proof cases
    case 1
    with worker_step_results_grow [of p i got now] worker_step_counts [of i got now p]
    show ?thesis by (simp add: loop_exit_def)
  next
    case 2
    with \<open>loop_exit p\<close> show ?thesis by (simp add: worker_step_all_exited)
  qed
qed

lemma inv_loop_step: "inv_loop p \<Longrightarrow> inv_loop (step e p)"
proof (cases e)
  case (MainStep epoch stamp)
  assume "inv_loop p"
  then have "inv_loop (main_step epoch stamp p)"
    by (cases "main p")
       (auto simp add: inv_loop_def main_step_def loop_exit_def Let_def
          split: prod.splits option.splits)
  with MainStep show ?thesis by simp
next
  case (WorkerStep i got now)
  assume inv: "inv_loop p"
  have "inv_loop (worker_step i got now p)"
    using inv worker_step_results_grow [of p i got now] loop_exit_worker_step [of p i got now]
    by (cases "main p") (simp_all add: inv_loop_def worker_step_main)
  with WorkerStep show ?thesis by simp
qed

lemma inv_loop_run: "inv_loop (run evs (boot src n t))"
proof (rule invariant_run [where P = inv_loop])
  show "inv_loop (boot src n t)" by (simp add: inv_loop_def boot_def)
qed (rule inv_loop_step)

text \<open>The number of worker threads.\<close>

lemma inv_workers_step: "inv_workers p \<Longrightarrow> inv_workers (step e p)"
proof (cases e)
  case (MainStep epoch stamp)
  assume inv: "inv_workers p"
  have "inv_workers (main_step epoch stamp p)"
  proof (cases "main p = Loading")
    case True
    with inv load_onion_domains_keeps [of "obj p"] show ?thesis
      by (simp add: inv_workers_def main_step_def split: prod.splits)
  next
    case False
    with inv show ?thesis
      by (cases "main p")
         (auto simp add: inv_workers_def main_step_def Let_def split: option.splits)
  qed
  with MainStep show ?thesis by simp
next
  case (WorkerStep i got now)
  assume "inv_workers p"
  with worker_step_counts [of i got now p] have "inv_workers (worker_step i got now p)"
    by (cases "main p") (auto simp add: inv_workers_def worker_step_main split: if_splits)
  with WorkerStep show ?thesis by simp
qed

lemma inv_workers_run: "inv_workers (run evs (boot src n t))"
proof (rule invariant_run [where P = inv_workers])
  show "inv_workers (boot src n t)" by (simp add: inv_workers_def boot_def)
qed (rule inv_workers_step)

lemma threads_step: "threads (obj (step e q)) = threads (obj q)"
  by (cases e) (simp_all add: main_step_threads worker_step_counts)

lemma threads_run: "threads (obj (run evs p)) = threads (obj p)"
  by (induction evs arbitrary: p) (simp_all add: threads_step)

lemma spawned_workers:
  assumes "spawned (run evs (boot src n t))"
  shows "int (length (workers (run evs (boot src n t)))) = max 0 n"
proof -
  let ?p = "run evs (boot src n t)"
  have "threads (obj ?p) = n" by (simp add: threads_run boot_def init_def)
  with inv_workers_run [of evs src n t] assms show ?thesis
    by (cases "main ?p") (simp_all add: inv_workers_def spawned_def split: if_splits)
qed

lemma strip_plain_abc: "strip ''abc.onion'' = ''abc.onion''"
  by (simp add: strip_def isspace_def)

lemma targets_of_two:
  "targets_of [''abc.onion'' @ [nl], ''def.onion''] = [''http://abc.onion'', ''http://def.onion'']"
  unfolding targets_of_def list.map strip_abc strip_def_onion
  by (simp add: accepted_def endswith_def with_protocol_def startswith_def)

lemma targets_of_one: "targets_of [''abc.onion''] = [''http://abc.onion'']"
  unfolding targets_of_def list.map strip_plain_abc
  by (simp add: accepted_def endswith_def with_protocol_def startswith_def)

lemma main_step_boot_File:
  "main_step epoch stamp (boot (File ls None) n t) =
     \<lparr>obj = (init (File ls None) n t)\<lparr>total_count := length (targets_of ls),
                                        queue := targets_of ls\<rparr>,
      main = Spawning, workers = [], report = None\<rparr>"
  by (simp add: main_step_def boot_def init_def load_onion_domains_def load_lines_acc
      put_all_append Let_def)

lemma run_two_targets:
  "run [MainStep 0 [], MainStep 0 [], MainStep 0 [], MainStep 0 [],
        WorkerStep 0 (RequestException []) 0, WorkerStep 1 (RequestException []) 0,
        WorkerStep 1 (RequestException ''timed out'') 1,
        WorkerStep 0 (Response \<lparr>status_code = 200, header_server = Some ''nginx'',
           header_content_type = Some ''text/html'', soup = Soup (Some ''Wiki'') 4\<rparr>) 2,
        WorkerStep 0 (RequestException []) 3, WorkerStep 1 (RequestException []) 3]
       (boot (File [''abc.onion'' @ [nl], ''def.onion''] None) 2 30) =
     \<lparr>obj = \<lparr>onion_list_file = File [''abc.onion'' @ [nl], ''def.onion''] None,
              threads = 2, timeout = 30,
              results = [(''http://def.onion'', initial_result 1),
                         (''http://abc.onion'',
                            [(''status'', PStr ''active''), (''response_code'', PInt 200),
                             (''title'', PStr ''Wiki''), (''server'', PStr ''nginx''),
                             (''content_type'', PStr ''text/html''), (''links'', PInt 4),
                             (''scan_time'', PFloat 2)])],
              queue = [], active_count = 1, total_count = 2\<rparr>,
      main = LoopTest 0, workers = [Exited, Exited], report = None\<rparr>"
  unfolding run.simps step.simps main_step_boot_File targets_of_two
  by (simp add: main_step_def worker_step_def worker_body_def scan_domain_def init_def
      initial_result_def header_or_unknown_def startswith_def strip_def isspace_def Let_def)


lemma in_flight_all_exited: "all_exited ws \<Longrightarrow> in_flight ws = []"
  by (induction ws) (simp_all add: all_exited_def in_flight_def)

lemma spawned_started: "spawned p \<Longrightarrow> main p \<noteq> Loading"
  by (auto simp add: spawned_def)

lemma at_report_started: "at_report p \<Longrightarrow> main p \<noteq> Loading"
  by (auto simp add: at_report_def)

lemma at_report_loop_exit: "inv_loop p \<Longrightarrow> at_report p \<Longrightarrow> loop_exit p"
  by (auto simp add: inv_loop_def at_report_def)

text \<open>
  Claim C1. The targets enqueued by the loader being distinct, once the pool is
  complete (all workers started and ended, the queue empty), and also once
  \<^verbatim>\<open>start\<close> has left its progress loop, the keys of the results are the targets,
  each once: none is missing, none is there twice, and there is no other key.
\<close>

theorem C1_one_result_per_target:
  assumes "distinct (targets_of ls)"
    and "pool_complete (run evs (boot (File ls None) n t))
         \<or> at_report (run evs (boot (File ls None) n t))"
  shows "mset (map fst (results (obj (run evs (boot (File ls None) n t))))) = mset (targets_of ls)
       \<and> distinct (map fst (results (obj (run evs (boot (File ls None) n t)))))
       \<and> set (map fst (results (obj (run evs (boot (File ls None) n t))))) = set (targets_of ls)
       \<and> length (results (obj (run evs (boot (File ls None) n t)))) = length (targets_of ls)"
proof -
  let ?p = "run evs (boot (File ls None) n t)"
  let ?Q = "mset (queue (obj ?p))" and ?F = "mset (in_flight (workers ?p))"
    and ?K = "mset (map fst (results (obj ?p)))"
  from assms(2) have started: "main ?p \<noteq> Loading"
    by (auto simp add: pool_complete_def spawned_started at_report_started)
  with inv_targets_run [OF assms(1), of evs n t]
  have total: "total_count (obj ?p) = length (targets_of ls)"
    and sum: "?Q + ?F + ?K = mset (targets_of ls)"
    by (simp_all add: inv_targets_def)
  have "?Q = {#} \<and> ?F = {#}"
  proof (cases "queue (obj ?p) = [] \<and> all_exited (workers ?p)")
    case True
    then show ?thesis by (simp add: in_flight_all_exited)
  next
    case False
    with assms(2) have "at_report ?p" by (auto simp add: pool_complete_def)
    from at_report_loop_exit [OF inv_loop_run this] False total
    have "length (targets_of ls) \<le> length (results (obj ?p))"
      by (auto simp add: loop_exit_def)
    moreover from arg_cong [OF sum, of size]
    have "length (queue (obj ?p)) + length (in_flight (workers ?p))
        + length (results (obj ?p)) = length (targets_of ls)"
      by simp
    ultimately have "length (queue (obj ?p)) = 0 \<and> length (in_flight (workers ?p)) = 0"
      by arith
    then show ?thesis by simp
  qed
  with sum have keys: "?K = mset (targets_of ls)" by simp
  from keys assms(1) have "distinct (map fst (results (obj ?p)))"
    by (metis mset_eq_imp_distinct_iff)
  moreover from keys have "set (map fst (results (obj ?p))) = set (targets_of ls)"
    by (rule mset_eq_setD)
  moreover from keys have "length (map fst (results (obj ?p))) = length (targets_of ls)"
    by (rule mset_eq_length)
  ultimately show ?thesis using keys by simp
qed

theorem C1_one_result_per_target_witness:
  "distinct (targets_of [''abc.onion'' @ [nl], ''def.onion''])
   \<and> pool_complete
       (run [MainStep 0 [], MainStep 0 [], MainStep 0 [], MainStep 0 [],
             WorkerStep 0 (RequestException []) 0, WorkerStep 1 (RequestException []) 0,
             WorkerStep 1 (RequestException ''timed out'') 1,
             WorkerStep 0 (Response \<lparr>status_code = 200, header_server = Some ''nginx'',
                header_content_type = Some ''text/html'', soup = Soup (Some ''Wiki'') 4\<rparr>) 2,
             WorkerStep 0 (RequestException []) 3, WorkerStep 1 (RequestException []) 3]
          (boot (File [''abc.onion'' @ [nl], ''def.onion''] None) 2 30))
   \<and> map fst (results (obj
       (run [MainStep 0 [], MainStep 0 [], MainStep 0 [], MainStep 0 [],
             WorkerStep 0 (RequestException []) 0, WorkerStep 1 (RequestException []) 0,
             WorkerStep 1 (RequestException ''timed out'') 1,
             WorkerStep 0 (Response \<lparr>status_code = 200, header_server = Some ''nginx'',
                header_content_type = Some ''text/html'', soup = Soup (Some ''Wiki'') 4\<rparr>) 2,
             WorkerStep 0 (RequestException []) 3, WorkerStep 1 (RequestException []) 3]
          (boot (File [''abc.onion'' @ [nl], ''def.onion''] None) 2 30)))) =
       [''http://def.onion'', ''http://abc.onion'']
   \<and> set [''http://def.onion'', ''http://abc.onion''] =
       set (targets_of [''abc.onion'' @ [nl], ''def.onion''])"
proof -
  let ?ls = "[''abc.onion'' @ [nl], ''def.onion'']"
  let ?evs = "[MainStep 0 [], MainStep 0 [], MainStep 0 [], MainStep 0 [],
             WorkerStep 0 (RequestException []) 0, WorkerStep 1 (RequestException []) 0,
             WorkerStep 1 (RequestException ''timed out'') 1,
             WorkerStep 0 (Response \<lparr>status_code = 200, header_server = Some ''nginx'',
                header_content_type = Some ''text/html'', soup = Soup (Some ''Wiki'') 4\<rparr>) 2,
             WorkerStep 0 (RequestException []) 3, WorkerStep 1 (RequestException []) 3]"
  let ?p = "run ?evs (boot (File ?ls None) 2 30)"
  have h1: "distinct (targets_of ?ls)"
    unfolding targets_of_two by simp
  have h2: "pool_complete ?p"
    unfolding run_two_targets by (simp add: pool_complete_def spawned_def all_exited_def)
  have keys: "map fst (results (obj ?p)) = [''http://def.onion'', ''http://abc.onion'']"
    unfolding run_two_targets by simp
  from C1_one_result_per_target [OF h1 disjI1 [OF h2]]
  have "set (map fst (results (obj ?p))) = set (targets_of ?ls)" by blast
  then have "set [''http://def.onion'', ''http://abc.onion''] = set (targets_of ?ls)"
    unfolding keys .
  with h1 h2 keys show ?thesis by blast
qed

subsection \<open>Setup failures\<close>

lemma load_fails_load:
  "load_fails (onion_list_file s) \<Longrightarrow> load_onion_domains s = (False, s)"
  by (cases "onion_list_file s")
     (auto simp add: load_fails_def load_onion_domains_def split: option.splits)

lemma failed_step_boot:
  assumes "load_fails src"
  shows "step e (boot src n t) =
           (if is_main e then (boot src n t)\<lparr>main := Returned False\<rparr> else boot src n t)"
proof (cases e)
  case (MainStep epoch stamp)
  from assms have "load_onion_domains (init src n t) = (False, init src n t)"
    by (intro load_fails_load) (simp add: init_def)
  with MainStep show ?thesis by (simp add: main_step_def boot_def)
next
  case (WorkerStep i got now)
  then show ?thesis by (simp add: worker_step_def boot_def)
qed

lemma failed_step_returned:
  "step e ((boot src n t)\<lparr>main := Returned False\<rparr>) = (boot src n t)\<lparr>main := Returned False\<rparr>"
  by (cases e) (simp_all add: main_step_def worker_step_def boot_def)

lemma failed_run_returned:
  "run evs ((boot src n t)\<lparr>main := Returned False\<rparr>) = (boot src n t)\<lparr>main := Returned False\<rparr>"
  by (induction evs) (simp_all add: failed_step_returned)

lemma failed_run:
  assumes "load_fails src"
  shows "run evs (boot src n t) =
           (if 0 < main_steps evs then (boot src n t)\<lparr>main := Returned False\<rparr>
            else boot src n t)"
proof (induction evs)
  case Nil
  show ?case by (simp add: main_steps_def)
next
  case (Cons e evs)
  show ?case
  proof (cases "is_main e")
    case True
    then show ?thesis
      by (simp add: failed_step_boot [OF assms] failed_run_returned main_steps_def)
  next
    case False
    with Cons show ?thesis
      by (simp add: failed_step_boot [OF assms] main_steps_def)
  qed
qed

lemma loaded_step:
  assumes "\<not> load_fails (onion_list_file (obj p)) \<and> main p \<noteq> Returned False"
  shows "\<not> load_fails (onion_list_file (obj (step e p))) \<and> main (step e p) \<noteq> Returned False"
proof (cases e)
  case (MainStep epoch stamp)
  from assms obtain ls where src: "onion_list_file (obj p) = File ls None"
    by (cases "onion_list_file (obj p)") (auto simp add: load_fails_def)
  then have "fst (load_onion_domains (obj p)) = True"
    by (simp add: load_onion_domains_def Let_def)
  with assms have "main (main_step epoch stamp p) \<noteq> Returned False"
    by (cases "main p")
       (auto simp add: main_step_def Let_def split: prod.splits option.splits)
  with assms MainStep show ?thesis by (simp add: main_step_file)
next
  case (WorkerStep i got now)
  with assms show ?thesis by (simp add: worker_step_file worker_step_main)
qed

lemma loaded_run:
  assumes "\<not> load_fails src"
  shows "main (run evs (boot src n t)) \<noteq> Returned False"
proof -
  have "\<not> load_fails (onion_list_file (obj (run evs (boot src n t))))
      \<and> main (run evs (boot src n t)) \<noteq> Returned False"
  proof (rule invariant_run [where P = "\<lambda>q. \<not> load_fails (onion_list_file (obj q))
      \<and> main q \<noteq> Returned False"])
    show "\<not> load_fails (onion_list_file (obj (boot src n t)))
        \<and> main (boot src n t) \<noteq> Returned False"
      using assms by (simp add: boot_def init_def)
  qed (rule loaded_step)
  then show ?thesis ..
qed

text \<open>
  Claim C7, as amended. When the loader fails (the file is missing, or opening or
  reading it raises), \<^verbatim>\<open>start\<close> returns \<open>False\<close> at its first step: no worker is
  ever started, the results stay empty and no report is written. When the loader
  does not fail, \<^verbatim>\<open>start\<close> never returns \<open>False\<close>. In no case is \<^verbatim>\<open>start\<close> left
  by an exception.
\<close>

theorem C7_only_setup_failures_are_fatal:
  "(load_fails src \<longrightarrow>
      workers (run evs (boot src n t)) = []
    \<and> results (obj (run evs (boot src n t))) = []
    \<and> report (run evs (boot src n t)) = None
    \<and> main (run evs (boot src n t)) = (if 0 < main_steps evs then Returned False else Loading))
   \<and> (\<not> load_fails src \<longrightarrow> main (run evs (boot src n t)) \<noteq> Returned False)
   \<and> main (run evs (boot src n t)) \<noteq> Raised"
proof -
  have failed: "workers (run evs (boot src n t)) = []
    \<and> results (obj (run evs (boot src n t))) = []
    \<and> report (run evs (boot src n t)) = None
    \<and> main (run evs (boot src n t)) = (if 0 < main_steps evs then Returned False else Loading)"
    if "load_fails src"
    using failed_run [OF that, of evs n t] by (simp add: boot_def init_def)
  from failed loaded_run [of src evs n t] not_Raised_run [of evs src n t]
  show ?thesis by blast
qed

theorem C7_only_setup_failures_witness:
  "load_fails NotFound
   \<and> workers (run [MainStep 0 [], WorkerStep 0 (RequestException []) 0] (boot NotFound 10 30)) = []
   \<and> results (obj (run [MainStep 0 [], WorkerStep 0 (RequestException []) 0]
        (boot NotFound 10 30))) = []
   \<and> main (run [MainStep 0 [], WorkerStep 0 (RequestException []) 0] (boot NotFound 10 30)) =
       Returned False
   \<and> \<not> load_fails (File [''abc.onion''] None)
   \<and> main (run [MainStep 0 []] (boot (File [''abc.onion''] None) 10 30)) \<noteq> Returned False"
proof -
  have h1: "load_fails NotFound" by (simp add: load_fails_def)
  have h2: "\<not> load_fails (File [''abc.onion''] None)" by (simp add: load_fails_def)
  have m: "0 < main_steps [MainStep 0 [], WorkerStep 0 (RequestException []) 0]"
    by (simp add: main_steps_def)
  from C7_only_setup_failures_are_fatal
         [of NotFound "[MainStep 0 [], WorkerStep 0 (RequestException []) 0]" 10 30]
       C7_only_setup_failures_are_fatal [of "File [''abc.onion''] None" "[MainStep 0 []]" 10 30]
       h1 h2 m
  show ?thesis by simp
qed

text \<open>
  The claim as stated fails: a path that exists but cannot be opened (a directory,
  say) makes \<^verbatim>\<open>start\<close> return \<open>False\<close> although the file is not missing.
\<close>

theorem C7_unreadable_file_counterexample:
  "main (run [MainStep 0 []] (boot (File [] (Some ''[Errno 21] Is a directory'')) 10 30)) =
     Returned False
   \<and> File [] (Some ''[Errno 21] Is a directory'') \<noteq> NotFound"
  by (simp add: main_step_def boot_def init_def load_onion_domains_def)

subsection \<open>Leaving the progress loop\<close>

lemma pool_complete_worker_step:
  "pool_complete p \<Longrightarrow> worker_step i got now p = p"
  by (simp add: pool_complete_def worker_step_all_exited)

lemma pool_complete_main_step:
  assumes "pool_complete p" and "inv_printable p" and "main p \<noteq> Raised"
  shows "pool_complete (main_step epoch stamp p)
       \<and> to_report (main (main_step epoch stamp p)) \<le> to_report (main p) - 1"
proof -
  from assms(2) have "list_all (\<lambda>item. printable (snd item)) (results (obj p))"
    by (simp add: inv_printable_def)
  from save_results_printable [OF this, of epoch stamp]
  obtain out where "save_results epoch stamp (obj p) = Some out" by blast
  with assms(1,3) show ?thesis
    by (cases "main p")
       (auto simp add: pool_complete_def spawned_def main_step_def Let_def)
qed

lemma complete_pool_reaches_report:
  assumes "pool_complete p" and "inv_printable p" and "main p \<noteq> Raised"
    and "to_report (main p) \<le> main_steps evs"
  shows "at_report (run evs p)"
  using assms
proof (induction evs arbitrary: p)
  case Nil
  then show ?case
    by (cases "main p") (auto simp add: main_steps_def pool_complete_def spawned_def at_report_def)
next
  case (Cons e evs)
  show ?case
  proof (cases e)
    case (WorkerStep i got now)
    with Cons.prems have "step e p = p" and "to_report (main p) \<le> main_steps evs"
      by (simp_all add: pool_complete_worker_step main_steps_def)
    with Cons.IH [of p] Cons.prems show ?thesis by simp
  next
    case (MainStep epoch stamp)
    let ?q = "main_step epoch stamp p"
    from pool_complete_main_step [OF Cons.prems(1-3), of epoch stamp]
    have c: "pool_complete ?q" and d: "to_report (main ?q) \<le> to_report (main p) - 1"
      by simp_all
    from not_Raised_step [of p e] Cons.prems(2,3) MainStep
    have "inv_printable ?q" and "main ?q \<noteq> Raised" by simp_all
    moreover from d Cons.prems(4) MainStep have "to_report (main ?q) \<le> main_steps evs"
      by (simp add: main_steps_def)
    ultimately have "at_report (run evs ?q)" using c by (intro Cons.IH)
    with MainStep show ?thesis by simp
  qed
qed

text \<open>
  Claim C8, as amended. In every run, whatever the number of threads and the order
  of the steps: \<^verbatim>\<open>start\<close> is at the write of the report only if the number of
  results has reached \<^verbatim>\<open>total_count\<close> or the queue is empty and all workers have
  ended; once the progress loop is entered the \<open>n\<close> workers are all started; and from
  a state where the queue is empty and all workers have ended, three further steps of
  the main thread (one pass of its loop) bring \<^verbatim>\<open>start\<close> to the report.
\<close>

theorem C8_report_after_loop_exit:
  "(at_report (run evs (boot src n t)) \<longrightarrow>
      total_count (obj (run evs (boot src n t))) \<le> length (results (obj (run evs (boot src n t))))
      \<or> (queue (obj (run evs (boot src n t))) = []
          \<and> all_exited (workers (run evs (boot src n t)))))
   \<and> (spawned (run evs (boot src n t)) \<longrightarrow>
        int (length (workers (run evs (boot src n t)))) = max 0 n)
   \<and> (pool_complete (run evs (boot src n t)) \<and> 3 \<le> main_steps evs' \<longrightarrow>
        at_report (run evs' (run evs (boot src n t))))"
proof -
  let ?p = "run evs (boot src n t)"
  have a: "loop_exit ?p" if "at_report ?p"
    using at_report_loop_exit [OF inv_loop_run that] .
  have b: "at_report (run evs' ?p)" if "pool_complete ?p" and "3 \<le> main_steps evs'"
  proof (rule complete_pool_reaches_report [OF that(1) inv_printable_run not_Raised_run])
    have "to_report (main ?p) \<le> 3" by (cases "main ?p") simp_all
    with that(2) show "to_report (main ?p) \<le> main_steps evs'" by simp
  qed
  from a b spawned_workers [of evs src n t] show ?thesis
    unfolding loop_exit_def by blast
qed

lemma run_one_target:
  "run [MainStep 0 [], MainStep 0 [], MainStep 0 [],
        WorkerStep 0 (RequestException []) 0,
        WorkerStep 0 (RequestException ''timed out'') 1,
        MainStep 0 [], MainStep 0 [], MainStep 0 [], MainStep 0 []]
       (boot (File [''abc.onion''] None) 1 30) =
     \<lparr>obj = \<lparr>onion_list_file = File [''abc.onion''] None,
              threads = 1, timeout = 30,
              results = [(''http://abc.onion'', initial_result 1)],
              queue = [], active_count = 0, total_count = 1\<rparr>,
      main = Saving, workers = [Polling], report = None\<rparr>"
  unfolding run.simps step.simps main_step_boot_File targets_of_one
  by (simp add: main_step_def worker_step_def worker_body_def scan_domain_def init_def
      initial_result_def all_exited_def Let_def)

text \<open>
  The claim as stated fails: with one worker and one target, the worker stores the
  result, the main thread reads one result of one and leaves its loop by the test
  of the \<^verbatim>\<open>while\<close>; it is at the write of the report while the worker, which
  has not yet found the queue empty, is alive.
\<close>

theorem C8_report_with_live_worker_counterexample:
  "at_report
     (run [MainStep 0 [], MainStep 0 [], MainStep 0 [],
           WorkerStep 0 (RequestException []) 0,
           WorkerStep 0 (RequestException ''timed out'') 1,
           MainStep 0 [], MainStep 0 [], MainStep 0 [], MainStep 0 []]
        (boot (File [''abc.onion''] None) 1 30))
   \<and> \<not> all_exited (workers
     (run [MainStep 0 [], MainStep 0 [], MainStep 0 [],
           WorkerStep 0 (RequestException []) 0,
           WorkerStep 0 (RequestException ''timed out'') 1,
           MainStep 0 [], MainStep 0 [], MainStep 0 [], MainStep 0 []]
        (boot (File [''abc.onion''] None) 1 30)))
   \<and> \<not> pool_complete
     (run [MainStep 0 [], MainStep 0 [], MainStep 0 [],
           WorkerStep 0 (RequestException []) 0,
           WorkerStep 0 (RequestException ''timed out'') 1,
           MainStep 0 [], MainStep 0 [], MainStep 0 [], MainStep 0 []]
        (boot (File [''abc.onion''] None) 1 30))"
  unfolding run_one_target
  by (simp add: at_report_def pool_complete_def all_exited_def)

lemma run_one_target_complete:
  "run [MainStep 0 [], MainStep 0 [], MainStep 0 [],
        WorkerStep 0 (RequestException []) 0,
        WorkerStep 0 (RequestException ''timed out'') 1,
        WorkerStep 0 (RequestException []) 2]
       (boot (File [''abc.onion''] None) 1 30) =
     \<lparr>obj = \<lparr>onion_list_file = File [''abc.onion''] None,
              threads = 1, timeout = 30,
              results = [(''http://abc.onion'', initial_result 1)],
              queue = [], active_count = 0, total_count = 1\<rparr>,
      main = LoopTest 0, workers = [Exited], report = None\<rparr>"
  unfolding run.simps step.simps main_step_boot_File targets_of_one
  by (simp add: main_step_def worker_step_def worker_body_def scan_domain_def init_def
      initial_result_def all_exited_def Let_def)

theorem C8_report_after_loop_exit_witness:
  "pool_complete
     (run [MainStep 0 [], MainStep 0 [], MainStep 0 [],
           WorkerStep 0 (RequestException []) 0,
           WorkerStep 0 (RequestException ''timed out'') 1,
           WorkerStep 0 (RequestException []) 2]
        (boot (File [''abc.onion''] None) 1 30))
   \<and> 3 \<le> main_steps [MainStep 5 [], MainStep 5 [], MainStep 5 []]
   \<and> at_report
       (run [MainStep 5 [], MainStep 5 [], MainStep 5 []]
         (run [MainStep 0 [], MainStep 0 [], MainStep 0 [],
               WorkerStep 0 (RequestException []) 0,
               WorkerStep 0 (RequestException ''timed out'') 1,
               WorkerStep 0 (RequestException []) 2]
            (boot (File [''abc.onion''] None) 1 30)))
   \<and> spawned
     (run [MainStep 0 [], MainStep 0 [], MainStep 0 [],
           WorkerStep 0 (RequestException []) 0,
           WorkerStep 0 (RequestException ''timed out'') 1,
           WorkerStep 0 (RequestException []) 2]
        (boot (File [''abc.onion''] None) 1 30))
   \<and> int (length (workers
     (run [MainStep 0 [], MainStep 0 [], MainStep 0 [],
           WorkerStep 0 (RequestException []) 0,
           WorkerStep 0 (RequestException ''timed out'') 1,
           WorkerStep 0 (RequestException []) 2]
        (boot (File [''abc.onion''] None) 1 30)))) = max 0 1"
proof -
  let ?evs = "[MainStep 0 [], MainStep 0 [], MainStep 0 [],
           WorkerStep 0 (RequestException []) 0,
           WorkerStep 0 (RequestException ''timed out'') 1,
           WorkerStep 0 (RequestException []) 2]"
  let ?p = "run ?evs (boot (File [''abc.onion''] None) 1 30)"
  let ?evs' = "[MainStep 5 [], MainStep 5 [], MainStep 5 []]"
  have h1: "pool_complete ?p"
    unfolding run_one_target_complete
    by (simp add: pool_complete_def spawned_def all_exited_def)
  then have h2: "spawned ?p" by (simp add: pool_complete_def)
  have h3: "3 \<le> main_steps ?evs'" by (simp add: main_steps_def)
  from C8_report_after_loop_exit [of ?evs "File [''abc.onion''] None" 1 30 ?evs'] h1 h2 h3
  have "at_report (run ?evs' ?p)" and "int (length (workers ?p)) = max 0 1" by blast+
  with h1 h2 h3 show ?thesis by blast
qed

subsection \<open>The report of a run\<close>

lemma results_distinct_step:
  "distinct (map fst (results (obj p))) \<Longrightarrow> distinct (map fst (results (obj (step e p))))"
proof (cases e)
  case (MainStep epoch stamp)
  assume "distinct (map fst (results (obj p)))"
  with MainStep show ?thesis by (simp add: main_step_results)
next
  case (WorkerStep i got now)
  assume "distinct (map fst (results (obj p)))"
  then show ?thesis
    unfolding WorkerStep step.simps
    by (cases i got now p rule: worker_step_cases) (simp_all add: distinct_update)
qed

lemma results_of_run_printable:
  "distinct (map fst (results (obj (run evs (boot src n t)))))
   \<and> list_all (\<lambda>item. printable (snd item)) (results (obj (run evs (boot src n t))))"
proof -
  have "distinct (map fst (results (obj (run evs (boot src n t)))))"
  proof (rule invariant_run [where P = "\<lambda>q. distinct (map fst (results (obj q)))"])
    show "distinct (map fst (results (obj (boot src n t))))"
      by (simp add: boot_def init_def)
  qed (rule results_distinct_step)
  with inv_printable_run [of evs src n t] show ?thesis
    by (simp add: inv_printable_def)
qed

text \<open>
  Claim C9. The results having distinct keys and being dictionaries the workers
  store (as they are in every run), \<^verbatim>\<open>_save_results\<close> returns a text file: the head,
  then the heading and the entries of the active targets, then those of the
  inactive targets, then those of the error targets. Each group holds exactly the
  targets of its status, each once, in ascending order of the target; the entry of an
  active target lists its response code, title, server, content type and link count.
\<close>

theorem C9_report_groups_by_status:
  assumes "distinct (map fst (results self))"
    and "list_all (\<lambda>item. printable (snd item)) (results self)"
  shows "\<exists>as es.
      save_results epoch stamp self =
        Some (''onion_scan_results_'' @ str_int epoch @ ''.txt'',
              report_head stamp self
            @ ''## Active Sites'' @ [nl, nl] @ concat as
            @ ''## Inactive Sites'' @ [nl, nl]
            @ concat (map (\<lambda>item. ''URL: '' @ fst item @ [nl])
                        (status_group ''inactive'' (results self)))
            @ ''## Error Sites'' @ [nl, nl] @ concat es)
    \<and> map Some as = map (\<lambda>item. active_entry (fst item) (snd item))
                       (status_group ''active'' (results self))
    \<and> map Some es = map (\<lambda>item. error_entry (fst item) (snd item))
                       (status_group ''error'' (results self))
    \<and> (\<forall>st. sorted (map fst (status_group st (results self)))
            \<and> distinct (map fst (status_group st (results self)))
            \<and> set (status_group st (results self)) =
                {item \<in> set (results self). map_of (snd item) ''status'' = Some (PStr st)})
    \<and> (\<forall>item \<in> set (status_group ''active'' (results self)).
          \<exists>code title server ctype links.
              map_of (snd item) ''response_code'' = Some code
            \<and> map_of (snd item) ''title'' = Some title
            \<and> map_of (snd item) ''server'' = Some server
            \<and> map_of (snd item) ''content_type'' = Some ctype
            \<and> map_of (snd item) ''links'' = Some links
            \<and> active_entry (fst item) (snd item) =
                Some (''URL: '' @ fst item @ [nl]
                    @ ''Response Code: '' @ py_str code @ [nl]
                    @ ''Title: '' @ py_str title @ [nl]
                    @ ''Server: '' @ py_str server @ [nl]
                    @ ''Content Type: '' @ py_str ctype @ [nl]
                    @ ''Links: '' @ py_str links @ [nl]
                    @ [nl]))"
proof -
  from save_results_printable [OF assms(2), of epoch stamp] obtain as es where
    out: "save_results epoch stamp self =
        Some (''onion_scan_results_'' @ str_int epoch @ ''.txt'',
              report_head stamp self
            @ ''## Active Sites'' @ [nl, nl] @ concat as
            @ ''## Inactive Sites'' @ [nl, nl]
            @ concat (map (\<lambda>item. inactive_entry (fst item))
                        (status_group ''inactive'' (results self)))
            @ ''## Error Sites'' @ [nl, nl] @ concat es)"
    and as: "map Some as = map (\<lambda>item. active_entry (fst item) (snd item))
                       (status_group ''active'' (results self))"
    and es: "map Some es = map (\<lambda>item. error_entry (fst item) (snd item))
                       (status_group ''error'' (results self))"
    by blast
  have groups: "sorted (map fst (status_group st (results self)))
      \<and> distinct (map fst (status_group st (results self)))
      \<and> set (status_group st (results self)) =
          {item \<in> set (results self). map_of (snd item) ''status'' = Some (PStr st)}" for st
    using status_group_sorted [of st "results self"]
      status_group_distinct [OF assms(1), of st] status_group_set [of st "results self"]
    by (simp add: has_status_def)
  have entries: "\<exists>code title server ctype links.
              map_of (snd item) ''response_code'' = Some code
            \<and> map_of (snd item) ''title'' = Some title
            \<and> map_of (snd item) ''server'' = Some server
            \<and> map_of (snd item) ''content_type'' = Some ctype
            \<and> map_of (snd item) ''links'' = Some links
            \<and> active_entry (fst item) (snd item) =
                Some (''URL: '' @ fst item @ [nl]
                    @ ''Response Code: '' @ py_str code @ [nl]
                    @ ''Title: '' @ py_str title @ [nl]
                    @ ''Server: '' @ py_str server @ [nl]
                    @ ''Content Type: '' @ py_str ctype @ [nl]
                    @ ''Links: '' @ py_str links @ [nl]
                    @ [nl])"
    if "item \<in> set (status_group ''active'' (results self))" for item
  proof -
    from that have "item \<in> set (results self)"
      and st: "map_of (snd item) ''status'' = Some (PStr ''active'')"
      by (simp_all add: status_group_set has_status_def)
    with assms(2) have "printable (snd item)" by (simp add: list_all_iff)
    from active_entry_printable [OF this st] show ?thesis .
  qed
  from out as es groups entries show ?thesis
    unfolding inactive_entry_def by blast
qed

lemma str_nat_3: "str_nat 3 = ''3''"
  by (simp add: str_nat.simps digit_def)

lemma str_nat_1: "str_nat 1 = ''1''"
  by (simp add: str_nat.simps digit_def)

lemma str_int_200: "str_int 200 = ''200''"
  by (simp add: str_int_def str_nat.simps digit_def)

lemma str_int_4: "str_int 4 = ''4''"
  by (simp add: str_int_def str_nat.simps digit_def)

lemma str_int_epoch: "str_int 1700000000 = ''1700000000''"
  by (simp add: str_int_def str_nat.simps digit_def)

lemma sorted_three:
  "sorted_items
     [(''http://def.onion'', initial_result 1),
      (''http://abc.onion'',
         [(''status'', PStr ''active''), (''response_code'', PInt 200),
          (''title'', PStr ''Wiki''), (''server'', PStr ''nginx''),
          (''content_type'', PStr ''text/html''), (''links'', PInt 4),
          (''scan_time'', PFloat 2)]),
      (''http://bad.onion'', error_result ''boom'')] =
     [(''http://abc.onion'',
         [(''status'', PStr ''active''), (''response_code'', PInt 200),
          (''title'', PStr ''Wiki''), (''server'', PStr ''nginx''),
          (''content_type'', PStr ''text/html''), (''links'', PInt 4),
          (''scan_time'', PFloat 2)]),
      (''http://bad.onion'', error_result ''boom''),
      (''http://def.onion'', initial_result 1)]"
  by (simp add: sorted_items_def less_eq_char_def less_char_def)


theorem C9_report_groups_witness:
  "distinct (map fst
     [(''http://def.onion'', initial_result 1),
      (''http://abc.onion'',
         [(''status'', PStr ''active''), (''response_code'', PInt 200),
          (''title'', PStr ''Wiki''), (''server'', PStr ''nginx''),
          (''content_type'', PStr ''text/html''), (''links'', PInt 4),
          (''scan_time'', PFloat 2)]),
      (''http://bad.onion'', error_result ''boom'')])
   \<and> list_all (\<lambda>item. printable (snd item))
     [(''http://def.onion'', initial_result 1),
      (''http://abc.onion'',
         [(''status'', PStr ''active''), (''response_code'', PInt 200),
          (''title'', PStr ''Wiki''), (''server'', PStr ''nginx''),
          (''content_type'', PStr ''text/html''), (''links'', PInt 4),
          (''scan_time'', PFloat 2)]),
      (''http://bad.onion'', error_result ''boom'')]
   \<and> save_results 1700000000 ''2023-11-14 22:13:20''
      \<lparr>onion_list_file = File [] None, threads = 2, timeout = 30,
       results =
     [(''http://def.onion'', initial_result 1),
      (''http://abc.onion'',
         [(''status'', PStr ''active''), (''response_code'', PInt 200),
          (''title'', PStr ''Wiki''), (''server'', PStr ''nginx''),
          (''content_type'', PStr ''text/html''), (''links'', PInt 4),
          (''scan_time'', PFloat 2)]),
      (''http://bad.onion'', error_result ''boom'')],
       queue = [], active_count = 1, total_count = 3\<rparr> =
       Some (''onion_scan_results_1700000000.txt'',
             ''# Onion Service Scan Results'' @ [nl]
           @ ''# Total scanned: 3'' @ [nl]
           @ ''# Active: 1'' @ [nl]
           @ ''# Scan time: 2023-11-14 22:13:20'' @ [nl, nl]
           @ ''## Active Sites'' @ [nl, nl]
           @ ''URL: http://abc.onion'' @ [nl]
           @ ''Response Code: 200'' @ [nl]
           @ ''Title: Wiki'' @ [nl]
           @ ''Server: nginx'' @ [nl]
           @ ''Content Type: text/html'' @ [nl]
           @ ''Links: 4'' @ [nl]
           @ [nl]
           @ ''## Inactive Sites'' @ [nl, nl]
           @ ''URL: http://def.onion'' @ [nl]
           @ ''## Error Sites'' @ [nl, nl]
           @ ''URL: http://bad.onion'' @ [nl]
           @ ''Error: boom'' @ [nl])"
proof -
  let ?act = "[(''status'', PStr ''active''), (''response_code'', PInt 200),
          (''title'', PStr ''Wiki''), (''server'', PStr ''nginx''),
          (''content_type'', PStr ''text/html''), (''links'', PInt 4),
          (''scan_time'', PFloat 2)]"
  let ?rs = "[(''http://def.onion'', initial_result 1),
      (''http://abc.onion'',
         [(''status'', PStr ''active''), (''response_code'', PInt 200),
          (''title'', PStr ''Wiki''), (''server'', PStr ''nginx''),
          (''content_type'', PStr ''text/html''), (''links'', PInt 4),
          (''scan_time'', PFloat 2)]),
      (''http://bad.onion'', error_result ''boom'')]"
  let ?self = "\<lparr>onion_list_file = File [] None, threads = 2, timeout = 30,
       results =
     [(''http://def.onion'', initial_result 1),
      (''http://abc.onion'',
         [(''status'', PStr ''active''), (''response_code'', PInt 200),
          (''title'', PStr ''Wiki''), (''server'', PStr ''nginx''),
          (''content_type'', PStr ''text/html''), (''links'', PInt 4),
          (''scan_time'', PFloat 2)]),
      (''http://bad.onion'', error_result ''boom'')],
       queue = [], active_count = 1, total_count = 3\<rparr>"
  have h1: "distinct (map fst (results ?self))" by simp
  have h2: "list_all (\<lambda>item. printable (snd item)) (results ?self)"
    by (simp add: printable_def initial_result_def error_result_def)
  have ga: "status_group ''active'' ?rs = [(''http://abc.onion'', ?act)]"
    unfolding status_group_def sorted_three
    by (simp add: has_status_def initial_result_def error_result_def)
  have gi: "status_group ''inactive'' ?rs = [(''http://def.onion'', initial_result 1)]"
    unfolding status_group_def sorted_three
    by (simp add: has_status_def initial_result_def error_result_def)
  have ge: "status_group ''error'' ?rs = [(''http://bad.onion'', error_result ''boom'')]"
    unfolding status_group_def sorted_three
    by (simp add: has_status_def initial_result_def error_result_def)
  have ea: "active_entry ''http://abc.onion'' ?act =
      Some (''URL: http://abc.onion'' @ [nl] @ ''Response Code: 200'' @ [nl]
          @ ''Title: Wiki'' @ [nl] @ ''Server: nginx'' @ [nl]
          @ ''Content Type: text/html'' @ [nl] @ ''Links: 4'' @ [nl] @ [nl])"
    by (simp add: active_entry_def fmt_def str_int_200 str_int_4)
  have ee: "error_entry ''http://bad.onion'' (error_result ''boom'') =
      Some (''URL: http://bad.onion'' @ [nl] @ ''Error: boom'' @ [nl])"
    by (simp add: error_entry_def fmt_def error_result_def)
  have hd: "report_head ''2023-11-14 22:13:20'' ?self =
      ''# Onion Service Scan Results'' @ [nl] @ ''# Total scanned: 3'' @ [nl]
      @ ''# Active: 1'' @ [nl] @ ''# Scan time: 2023-11-14 22:13:20'' @ [nl, nl]"
    by (simp add: report_head_def str_nat_3 str_nat_1 [unfolded One_nat_def])
  from C9_report_groups_by_status [OF h1 h2, of 1700000000 "''2023-11-14 22:13:20''"]
  obtain as es where
    out: "save_results 1700000000 ''2023-11-14 22:13:20'' ?self =
        Some (''onion_scan_results_'' @ str_int 1700000000 @ ''.txt'',
              report_head ''2023-11-14 22:13:20'' ?self
            @ ''## Active Sites'' @ [nl, nl] @ concat as
            @ ''## Inactive Sites'' @ [nl, nl]
            @ concat (map (\<lambda>item. ''URL: '' @ fst item @ [nl])
                        (status_group ''inactive'' (results ?self)))
            @ ''## Error Sites'' @ [nl, nl] @ concat es)"
    and as: "map Some as = map (\<lambda>item. active_entry (fst item) (snd item))
                       (status_group ''active'' (results ?self))"
    and es: "map Some es = map (\<lambda>item. error_entry (fst item) (snd item))
                       (status_group ''error'' (results ?self))"
    by blast
  from as have as': "as = [''URL: http://abc.onion'' @ [nl] @ ''Response Code: 200'' @ [nl]
          @ ''Title: Wiki'' @ [nl] @ ''Server: nginx'' @ [nl]
          @ ''Content Type: text/html'' @ [nl] @ ''Links: 4'' @ [nl] @ [nl]]"
    unfolding scanner.simps ga list.map fst_conv snd_conv ea
    by (auto simp add: map_eq_Cons_conv)
  from es have es': "es = [''URL: http://bad.onion'' @ [nl] @ ''Error: boom'' @ [nl]]"
    unfolding scanner.simps ge list.map fst_conv snd_conv ee
    by (auto simp add: map_eq_Cons_conv)
  have "save_results 1700000000 ''2023-11-14 22:13:20'' ?self =
       Some (''onion_scan_results_1700000000.txt'',
             ''# Onion Service Scan Results'' @ [nl]
           @ ''# Total scanned: 3'' @ [nl]
           @ ''# Active: 1'' @ [nl]
           @ ''# Scan time: 2023-11-14 22:13:20'' @ [nl, nl]
           @ ''## Active Sites'' @ [nl, nl]
           @ ''URL: http://abc.onion'' @ [nl]
           @ ''Response Code: 200'' @ [nl]
           @ ''Title: Wiki'' @ [nl]
           @ ''Server: nginx'' @ [nl]
           @ ''Content Type: text/html'' @ [nl]
           @ ''Links: 4'' @ [nl]
           @ [nl]
           @ ''## Inactive Sites'' @ [nl, nl]
           @ ''URL: http://def.onion'' @ [nl]
           @ ''## Error Sites'' @ [nl, nl]
           @ ''URL: http://bad.onion'' @ [nl]
           @ ''Error: boom'' @ [nl])"
    unfolding out hd as' es' scanner.simps gi str_int_epoch by simp
  with h1 h2 show ?thesis by simp
qed

end
